theory Spec2Isabelle
  imports Main "HOL-Library.Sublist"
begin

section \<open>Strings of the script\<close>

text \<open>
  JavaScript strings are modelled as \<^typ>\<open>string\<close> (lists of 8-bit characters); the
  model covers ASCII text. Characters outside ASCII are passed through unchanged by
  \<open>toLowerCase\<close> and are never white space for \<open>trim\<close>.
\<close>

definition lowerChar :: "char \<Rightarrow> char" where
  "lowerChar c =
     (case map_of (zip ''ABCDEFGHIJKLMNOPQRSTUVWXYZ'' ''abcdefghijklmnopqrstuvwxyz'') c of
        None \<Rightarrow> c
      | Some l \<Rightarrow> l)"

text \<open>\<open>String.prototype.toLowerCase\<close>\<close>

definition toLowerCase :: "string \<Rightarrow> string" where
  "toLowerCase s = map lowerChar s"

text \<open>White space removed by \<open>String.prototype.trim\<close>: TAB, LF, VT, FF, CR and SPACE.\<close>

definition isWhiteSpace :: "char \<Rightarrow> bool" where
  "isWhiteSpace c =
     (c \<in> set [CHR 0x09, CHR 0x0A, CHR 0x0B, CHR 0x0C, CHR 0x0D, CHR '' ''])"

definition trimStart :: "string \<Rightarrow> string" where
  "trimStart s = dropWhile isWhiteSpace s"

definition trim :: "string \<Rightarrow> string" where
  "trim s = rev (dropWhile isWhiteSpace (rev (dropWhile isWhiteSpace s)))"

text \<open>\<open>s.includes(t)\<close>: \<open>t\<close> occurs in \<open>s\<close> as a contiguous run of characters.\<close>

fun includesStr :: "string \<Rightarrow> string \<Rightarrow> bool" where
  "includesStr [] t = (t = [])"
| "includesStr (c # s) t = (prefix t (c # s) \<or> includesStr s t)"

section \<open>Numbers as stored text\<close>

text \<open>
  Times are milliseconds since the epoch, as \<open>Date.now()\<close> gives them. JavaScript
  keeps them in doubles, which are exact on the whole range of \<open>Date\<close>
  (\<open>\<plusminus>8.64e15\<close>, below \<open>2^53\<close>), so they are integers here.
  \<open>localStorage.setItem(key, n)\<close> stores \<open>String(n)\<close>: for an integer of magnitude
  below \<open>10^21\<close>, the decimal digits, with a leading minus sign for a negative number.
\<close>

definition digitChar :: "int \<Rightarrow> char" where
  "digitChar d = ''0123456789'' ! nat d"

function digitsOf :: "int \<Rightarrow> string" where
  "digitsOf n =
     (if n < 10 then [digitChar n] else digitsOf (n div 10) @ [digitChar (n mod 10)])"
  by pat_completeness auto
termination
  by (relation "measure nat") auto

declare digitsOf.simps [simp del]

definition Number_toString :: "int \<Rightarrow> string" where
  "Number_toString i = (if i < 0 then CHR ''-'' # digitsOf (- i) else digitsOf i)"

definition isDigit :: "char \<Rightarrow> bool" where
  "isDigit c = (c \<in> set ''0123456789'')"

definition digitValue :: "char \<Rightarrow> int" where
  "digitValue c =
     (case map_of (zip ''0123456789'' [0, 1, 2, 3, 4, 5, 6, 7, 8, 9]) c of
        None \<Rightarrow> 0
      | Some d \<Rightarrow> d)"

definition digitsValue :: "string \<Rightarrow> int" where
  "digitsValue z = foldl (\<lambda>a c. 10 * a + digitValue c) 0 z"

text \<open>
  \<open>parseInt(str, 10)\<close>: leading white space is skipped, one sign is read, then the
  longest run of decimal digits; with no digit the result is \<open>NaN\<close>, here \<open>None\<close>.
\<close>

definition parseInt :: "string \<Rightarrow> int option" where
  "parseInt str =
     (let s = trimStart str;
          neg = (s \<noteq> [] \<and> hd s = CHR ''-'');
          s1 = (if s \<noteq> [] \<and> (hd s = CHR ''-'' \<or> hd s = CHR ''+'') then tl s else s);
          z = takeWhile isDigit s1
      in if z = [] then None
         else Some (if neg then - digitsValue z else digitsValue z))"

section \<open>Rows and datasets\<close>

text \<open>
  A row is the object the spreadsheet parser returns for one sheet line: column names
  with their cell values, in discovery order. The parser is called with raw values, so a
  cell is a text, a number or a boolean; numbers are the integers here (a fraction has
  no exact model). \<open>truthy\<close> is JavaScript's truth test, \<open>JS_String\<close> its \<open>String(v)\<close>.
\<close>

datatype cellValue = Str string | Num int | Bool bool

type_synonym row = "(string \<times> cellValue) list"
type_synonym dataset = "row list"

fun truthy :: "cellValue \<Rightarrow> bool" where
  "truthy (Str s) = (s \<noteq> [])"
| "truthy (Num n) = (n \<noteq> 0)"
| "truthy (Bool b) = b"

fun JS_String :: "cellValue \<Rightarrow> string" where
  "JS_String (Str s) = s"
| "JS_String (Num n) = Number_toString n"
| "JS_String (Bool b) = (if b then ''true'' else ''false'')"

text \<open>
  \<open>String(item[field] || '')\<close>, and the \<open>row[field] || ''\<close> that a card's template
  turns into text: a missing column gives \<open>undefined\<close>, and \<open>||\<close> replaces every falsy
  value by the empty string.
\<close>

definition cell :: "row \<Rightarrow> string \<Rightarrow> string" where
  "cell item field =
     (case map_of item field of
        None \<Rightarrow> []
      | Some v \<Rightarrow> if truthy v then JS_String v else [])"

section \<open>Search\<close>

text \<open>
  \<open>searchData(data, searchTerm, searchField = 'all')\<close>; the global \<open>selectedFields\<close> it
  reads is the first argument here.
\<close>

definition searchData :: "string list \<Rightarrow> dataset \<Rightarrow> string \<Rightarrow> string \<Rightarrow> dataset" where
  "searchData selectedFields data searchTerm searchField =
     (if trim searchTerm = [] then data
      else
        let searchTermLower = toLowerCase searchTerm in
        filter
          (\<lambda>item.
             if searchField = ''all''
             then list_ex (\<lambda>field. includesStr (toLowerCase (cell item field)) searchTermLower)
                    selectedFields
             else includesStr (toLowerCase (cell item searchField)) searchTermLower)
          data)"

text \<open>
  The spec's matching rule, in its own words: the stringified cell value, with an absent
  cell read as the empty string, contains the term as a substring, up to letter case.
\<close>

definition stringified :: "row \<Rightarrow> string \<Rightarrow> string" where
  "stringified item field = (case map_of item field of None \<Rightarrow> [] | Some v \<Rightarrow> JS_String v)"

definition containsIgnoreCase :: "string \<Rightarrow> string \<Rightarrow> bool" where
  "containsIgnoreCase v t = sublist (toLowerCase t) (toLowerCase v)"


section \<open>JSON\<close>

text \<open>
  \<open>JSON.stringify\<close> of an array of strings, which is what the script passes
  (\<open>checked.map(cb => cb.value)\<close>).
\<close>

definition hexDigit :: "nat \<Rightarrow> char" where
  "hexDigit d = ''0123456789abcdef'' ! d"

definition quoteChar :: "char \<Rightarrow> string" where
  "quoteChar c =
     (if c = CHR 0x22 then [CHR 0x5C, CHR 0x22]
      else if c = CHR 0x5C then [CHR 0x5C, CHR 0x5C]
      else if c = CHR 0x08 then [CHR 0x5C, CHR ''b'']
      else if c = CHR 0x0C then [CHR 0x5C, CHR ''f'']
      else if c = CHR 0x0A then [CHR 0x5C, CHR ''n'']
      else if c = CHR 0x0D then [CHR 0x5C, CHR ''r'']
      else if c = CHR 0x09 then [CHR 0x5C, CHR ''t'']
      else if (of_char c :: nat) < 32
      then [CHR 0x5C, CHR ''u'', CHR ''0'', CHR ''0'',
            hexDigit ((of_char c :: nat) div 16), hexDigit ((of_char c :: nat) mod 16)]
      else [c])"

definition quoteJSON :: "string \<Rightarrow> string" where
  "quoteJSON s = CHR 0x22 # concat (map quoteChar s) @ [CHR 0x22]"

fun joinComma :: "string list \<Rightarrow> string" where
  "joinComma [] = []"
| "joinComma [x] = x"
| "joinComma (x # y # ys) = x @ CHR '','' # joinComma (y # ys)"

definition JSON_stringify :: "string list \<Rightarrow> string" where
  "JSON_stringify fields = CHR ''['' # joinComma (map quoteJSON fields) @ [CHR '']'']"

text \<open>
  \<open>JSON.parse\<close>: a recursive-descent reader of the JSON grammar. A syntax error, which
  \<open>JSON.parse\<close> throws, is \<open>None\<close>. Number literals are kept as their text. An escape
  \<open>\uXXXX\<close> above \<open>00FF\<close> has no 8-bit character and is refused here.
\<close>

datatype json =
  JNull | JBool bool | JNum string | JStr string | JArr "json list" | JObj "(string \<times> json) list"

definition isJsonWs :: "char \<Rightarrow> bool" where
  "isJsonWs c = (c \<in> set [CHR '' '', CHR 0x09, CHR 0x0A, CHR 0x0D])"

definition skipWs :: "string \<Rightarrow> string" where
  "skipWs s = dropWhile isJsonWs s"

definition hexValue :: "char \<Rightarrow> nat option" where
  "hexValue c =
     map_of (zip ''0123456789abcdefABCDEF''
       [0, 1, 2, 3, 4, 5, 6, 7, 8, 9, 10, 11, 12, 13, 14, 15, 10, 11, 12, 13, 14, 15]) c"

definition hex4 :: "char \<Rightarrow> char \<Rightarrow> char \<Rightarrow> char \<Rightarrow> nat option" where
  "hex4 a b c d =
     (case (hexValue a, hexValue b, hexValue c, hexValue d) of
        (Some w, Some x, Some y, Some z) \<Rightarrow> Some (((w * 16 + x) * 16 + y) * 16 + z)
      | _ \<Rightarrow> None)"

definition unescape :: "char \<Rightarrow> char option" where
  "unescape e =
     map_of [(CHR 0x22, CHR 0x22), (CHR 0x5C, CHR 0x5C), (CHR ''/'', CHR ''/''),
             (CHR ''b'', CHR 0x08), (CHR ''f'', CHR 0x0C), (CHR ''n'', CHR 0x0A),
             (CHR ''r'', CHR 0x0D), (CHR ''t'', CHR 0x09)] e"

definition consChar :: "char \<Rightarrow> (string \<times> string) option \<Rightarrow> (string \<times> string) option" where
  "consChar c r = (case r of None \<Rightarrow> None | Some (s, rest) \<Rightarrow> Some (c # s, rest))"

text \<open>The characters of a string literal, after its opening quote.\<close>

fun parseStringBody :: "string \<Rightarrow> (string \<times> string) option" where
  "parseStringBody [] = None"
| "parseStringBody (c # cs) =
     (if c = CHR 0x22 then Some ([], cs)
      else if c = CHR 0x5C then
        (case cs of
           [] \<Rightarrow> None
         | e # r \<Rightarrow>
             if e = CHR ''u'' then
               (case r of
                  h1 # h2 # h3 # h4 # r' \<Rightarrow>
                    (case hex4 h1 h2 h3 h4 of
                       None \<Rightarrow> None
                     | Some n \<Rightarrow>
                         if n < 256 then consChar (char_of n) (parseStringBody r') else None)
                | _ \<Rightarrow> None)
             else
               (case unescape e of
                  None \<Rightarrow> None
                | Some ch \<Rightarrow> consChar ch (parseStringBody r)))
      else if (of_char c :: nat) < 32 then None
      else consChar c (parseStringBody cs))"

definition parseNumber :: "string \<Rightarrow> (string \<times> string) option" where
  "parseNumber s =
     (let sign = (if s \<noteq> [] \<and> hd s = CHR ''-'' then ''-'' else []);
          s1 = drop (length sign) s;
          ds = takeWhile isDigit s1;
          s2 = dropWhile isDigit s1;
          hasFrac = (s2 \<noteq> [] \<and> hd s2 = CHR ''.'');
          fs = (if hasFrac then takeWhile isDigit (tl s2) else []);
          s3 = (if hasFrac then dropWhile isDigit (tl s2) else s2);
          hasExp = (s3 \<noteq> [] \<and> (hd s3 = CHR ''e'' \<or> hd s3 = CHR ''E''));
          s4 = (if hasExp then tl s3 else s3);
          esign = (if hasExp \<and> s4 \<noteq> [] \<and> (hd s4 = CHR ''+'' \<or> hd s4 = CHR ''-'')
                   then [hd s4] else []);
          s5 = drop (length esign) s4;
          es = (if hasExp then takeWhile isDigit s5 else []);
          s6 = (if hasExp then dropWhile isDigit s5 else s3)
      in if ds = [] \<or> (hd ds = CHR ''0'' \<and> length ds > 1) then None
         else if hasFrac \<and> fs = [] then None
         else if hasExp \<and> es = [] then None
         else Some (take (length s - length s6) s, s6))"

text \<open>
  Values, array elements and object members. The first argument bounds the depth of the
  recursion; \<open>JSON_parse\<close> starts it at twice the length of the text plus two. Every
  call but the first follows a consumed character, so the bound is never what refuses a
  text: a greater one gives the same result, as is proved below.
\<close>

fun parseValue :: "nat \<Rightarrow> string \<Rightarrow> (json \<times> string) option"
  and parseElements :: "nat \<Rightarrow> string \<Rightarrow> (json list \<times> string) option"
  and parseMembers :: "nat \<Rightarrow> string \<Rightarrow> ((string \<times> json) list \<times> string) option"
where
  "parseValue 0 s = None"
| "parseValue (Suc n) s =
     (case skipWs s of
        [] \<Rightarrow> None
      | c # r \<Rightarrow>
          if c = CHR 0x22 then
            (case parseStringBody r of None \<Rightarrow> None | Some (t, r') \<Rightarrow> Some (JStr t, r'))
          else if c = CHR ''['' then
            (if skipWs r \<noteq> [] \<and> hd (skipWs r) = CHR '']'' then Some (JArr [], tl (skipWs r))
             else (case parseElements n r of
                     None \<Rightarrow> None
                   | Some (vs, r') \<Rightarrow> Some (JArr vs, r')))
          else if c = CHR ''{'' then
            (if skipWs r \<noteq> [] \<and> hd (skipWs r) = CHR ''}'' then Some (JObj [], tl (skipWs r))
             else (case parseMembers n r of
                     None \<Rightarrow> None
                   | Some (ms, r') \<Rightarrow> Some (JObj ms, r')))
          else if prefix ''true'' (c # r) then Some (JBool True, drop 4 (c # r))
          else if prefix ''false'' (c # r) then Some (JBool False, drop 5 (c # r))
          else if prefix ''null'' (c # r) then Some (JNull, drop 4 (c # r))
          else (case parseNumber (c # r) of
                  None \<Rightarrow> None
                | Some (t, r') \<Rightarrow> Some (JNum t, r')))"
| "parseElements 0 s = None"
| "parseElements (Suc n) s =
     (case parseValue n s of
        None \<Rightarrow> None
      | Some (v, r) \<Rightarrow>
          (case skipWs r of
             [] \<Rightarrow> None
           | c # r' \<Rightarrow>
               if c = CHR '']'' then Some ([v], r')
               else if c = CHR '','' then
                 (case parseElements n r' of
                    None \<Rightarrow> None
                  | Some (vs, r'') \<Rightarrow> Some (v # vs, r''))
               else None))"
| "parseMembers 0 s = None"
| "parseMembers (Suc n) s =
     (case skipWs s of
        [] \<Rightarrow> None
      | q # r0 \<Rightarrow>
          if q \<noteq> CHR 0x22 then None
          else
            (case parseStringBody r0 of
               None \<Rightarrow> None
             | Some (k, r1) \<Rightarrow>
                 (case skipWs r1 of
                    [] \<Rightarrow> None
                  | col # r2 \<Rightarrow>
                      if col \<noteq> CHR '':'' then None
                      else
                        (case parseValue n r2 of
                           None \<Rightarrow> None
                         | Some (v, r3) \<Rightarrow>
                             (case skipWs r3 of
                                [] \<Rightarrow> None
                              | c # r4 \<Rightarrow>
                                  if c = CHR ''}'' then Some ([(k, v)], r4)
                                  else if c = CHR '','' then
                                    (case parseMembers n r4 of
                                       None \<Rightarrow> None
                                     | Some (ms, r5) \<Rightarrow> Some ((k, v) # ms, r5))
                                  else None)))))"

definition JSON_parse :: "string \<Rightarrow> json option" where
  "JSON_parse src =
     (case parseValue (2 * length src + 2) src of
        None \<Rightarrow> None
      | Some (v, r) \<Rightarrow> if skipWs r = [] then Some v else None)"

section \<open>The durable store\<close>

text \<open>
  The bulk tier is the IndexedDB object store, read and written under the single key
  \<open>FILE_KEY\<close>; the metadata tier is \<open>localStorage\<close>. Whether the medium serves a
  request is part of the state: \<open>idbOk\<close> tells whether IndexedDB opens and completes
  its transaction, \<open>lsAccepts\<close> whether \<open>localStorage.setItem\<close> takes a key and value
  (it throws when the quota is exceeded or storage is disabled). A rejected promise and a
  thrown exception are the \<open>Inl\<close> results; the medium after the call is the second
  component.
\<close>

datatype error = IDBError | QuotaExceededError

record medium =
  idb :: "dataset option"
  ls :: "string \<rightharpoonup> string"
  idbOk :: bool
  lsAccepts :: "string \<Rightarrow> string \<Rightarrow> bool"

definition CONFIG_KEY :: string where
  "CONFIG_KEY = ''excel_card_config''"

definition EXPIRY_KEY :: string where
  "EXPIRY_KEY = ''excel_card_expiry''"

definition EXPIRY_DAYS :: int where
  "EXPIRY_DAYS = 30"

definition saveExcelToDB :: "medium \<Rightarrow> dataset \<Rightarrow> (error + unit) \<times> medium" where
  "saveExcelToDB m data =
     (if idbOk m then (Inr (), m\<lparr>idb := Some data\<rparr>) else (Inl IDBError, m))"

definition loadExcelFromDB :: "medium \<Rightarrow> (error + dataset option) \<times> medium" where
  "loadExcelFromDB m = (if idbOk m then (Inr (idb m), m) else (Inl IDBError, m))"

definition clearExcelDB :: "medium \<Rightarrow> (error + unit) \<times> medium" where
  "clearExcelDB m = (if idbOk m then (Inr (), m\<lparr>idb := None\<rparr>) else (Inl IDBError, m))"

definition getItem :: "medium \<Rightarrow> string \<Rightarrow> string option" where
  "getItem m k = ls m k"

definition setItem :: "medium \<Rightarrow> string \<Rightarrow> string \<Rightarrow> (error + unit) \<times> medium" where
  "setItem m k v =
     (if lsAccepts m k v then (Inr (), m\<lparr>ls := (ls m)(k \<mapsto> v)\<rparr>)
      else (Inl QuotaExceededError, m))"

definition removeItem :: "medium \<Rightarrow> string \<Rightarrow> medium" where
  "removeItem m k = m\<lparr>ls := (ls m)(k := None)\<rparr>"

text \<open>\<open>setExpiry\<close>; \<open>now\<close> is what \<open>new Date().getTime()\<close> returns.\<close>

definition setExpiry :: "medium \<Rightarrow> int \<Rightarrow> (error + unit) \<times> medium" where
  "setExpiry m now =
     (let expiry = now + EXPIRY_DAYS * 24 * 60 * 60 * 1000
      in setItem m EXPIRY_KEY (Number_toString expiry))"

text \<open>
  The test of \<open>checkExpiry\<close>: \<open>expiry && Date.now() > parseInt(expiry, 10)\<close>. A missing
  entry is \<open>null\<close> and an empty text is falsy; a comparison with \<open>NaN\<close> is false.
\<close>

definition expiryPassed :: "string option \<Rightarrow> int \<Rightarrow> bool" where
  "expiryPassed expiry now =
     (case expiry of
        None \<Rightarrow> False
      | Some e \<Rightarrow> e \<noteq> [] \<and> (case parseInt e of None \<Rightarrow> False | Some t \<Rightarrow> now > t))"

definition checkExpiry :: "medium \<Rightarrow> int \<Rightarrow> (error + bool) \<times> medium" where
  "checkExpiry m now =
     (let expiry = getItem m EXPIRY_KEY in
      if expiryPassed expiry now then
        (case clearExcelDB m of
           (Inl err, m1) \<Rightarrow> (Inl err, m1)
         | (Inr u, m1) \<Rightarrow> (Inr True, removeItem (removeItem m1 CONFIG_KEY) EXPIRY_KEY))
      else (Inr False, m))"

definition saveToStorage ::
  "medium \<Rightarrow> int \<Rightarrow> dataset \<Rightarrow> string list \<Rightarrow> (error + unit) \<times> medium" where
  "saveToStorage m now data flds =
     (case saveExcelToDB m data of
        (Inl err, m1) \<Rightarrow> (Inl err, m1)
      | (Inr u, m1) \<Rightarrow>
          (case setItem m1 CONFIG_KEY (JSON_stringify flds) of
             (Inl err, m2) \<Rightarrow> (Inl err, m2)
           | (Inr u, m2) \<Rightarrow> setExpiry m2 now))"

text \<open>
  \<open>loadFromStorage\<close>: \<open>null\<close> is \<open>None\<close>; the record \<open>{data, fields}\<close> is a pair.
  \<open>data && config\<close> holds when the bulk entry exists and the stored text is not empty.
\<close>

definition loadFromStorage ::
  "medium \<Rightarrow> int \<Rightarrow> (error + (dataset \<times> json) option) \<times> medium" where
  "loadFromStorage m now =
     (case checkExpiry m now of
        (Inl err, m1) \<Rightarrow> (Inl err, m1)
      | (Inr expired, m1) \<Rightarrow>
          if expired then (Inr None, m1)
          else
            let config = getItem m1 CONFIG_KEY in
            (case loadExcelFromDB m1 of
               (Inl err, m2) \<Rightarrow> (Inl err, m2)
             | (Inr data, m2) \<Rightarrow>
                 (case (data, config) of
                    (Some d, Some c) \<Rightarrow>
                      if c \<noteq> [] then
                        (case JSON_parse c of
                           Some flds \<Rightarrow> (Inr (Some (d, flds)), m2)
                         | None \<Rightarrow> (Inr None, m2))
                      else (Inr None, m2)
                  | _ \<Rightarrow> (Inr None, m2))))"

section \<open>The session and the card renderer\<close>

text \<open>
  The module's variables and the parts of the page the script writes. A card is the list
  of its lines (\<open>innerHTML\<close> of each field's \<open>div\<close>); \<open>cards\<close> are the children of
  \<open>cardsSection\<close>. An element is shown when its \<open>style.display\<close> is not \<open>'none'\<close>.
  \<open>loadMoreBtn\<close> tells whether the variable of that name holds a button, which the
  script has then inserted after the cards; \<open>loadMoreButtons\<close> counts the "Load More"
  buttons in the page, all with the same \<open>onclick\<close>. \<open>pending\<close> are the callbacks handed to
  \<open>requestIdleCallback\<close> (or \<open>requestAnimationFrame\<close>) that have not run yet, oldest
  first: each is a \<open>renderChunk\<close> closure with its captured \<open>toShow\<close>, \<open>end\<close> and
  \<open>i\<close>.
\<close>

record session =
  excelData :: dataset
  selectedFields :: "string list"
  lastMatches :: dataset
  lastFields :: "string list"
  lastSearchTerm :: string
  currentPage :: nat
  loadMoreBtn :: bool
  loadMoreButtons :: nat
  cards :: "string list list"
  noMatchesShown :: bool
  spinnerShown :: bool
  columnSectionShown :: bool
  searchSectionShown :: bool
  alerts :: "string list"
  pending :: "(dataset \<times> nat \<times> nat) list"

definition CARDS_PER_PAGE :: nat where
  "CARDS_PER_PAGE = 30"

definition CHUNK_SIZE :: nat where
  "CHUNK_SIZE = 10"

definition isRegistrationField :: "string \<Rightarrow> bool" where
  "isRegistrationField fieldName = includesStr (toLowerCase fieldName) ''registratio''"

text \<open>
  \<open>clearLoadMoreBtn\<close> removes from the page the button the variable holds, and no
  other.
\<close>

definition clearLoadMoreBtn :: "session \<Rightarrow> session" where
  "clearLoadMoreBtn s =
     (let s1 = (if loadMoreBtn s then s\<lparr>loadMoreButtons := loadMoreButtons s - 1\<rparr> else s)
      in s1\<lparr>loadMoreBtn := False\<rparr>)"

definition showSpinner :: "bool \<Rightarrow> session \<Rightarrow> session" where
  "showSpinner sh s = s\<lparr>spinnerShown := sh\<rparr>"

definition alert :: "string \<Rightarrow> session \<Rightarrow> session" where
  "alert msg s = s\<lparr>alerts := alerts s @ [msg]\<rparr>"

definition makeCard :: "string list \<Rightarrow> row \<Rightarrow> string list" where
  "makeCard flds r = map (\<lambda>field. ''<strong>'' @ field @ '':</strong> '' @ cell r field) flds"

definition requestIdleCallback :: "dataset \<times> nat \<times> nat \<Rightarrow> session \<Rightarrow> session" where
  "requestIdleCallback cb s = s\<lparr>pending := pending s @ [cb]\<rparr>"

text \<open>
  One run of \<open>renderChunk\<close>, the closure of \<open>renderCardsPage\<close>: \<open>toShow\<close> and \<open>end\<close>
  are its captured constants, \<open>i\<close> its captured counter. The \<open>for\<close> loop appends the
  cards of rows \<open>i\<close> to \<open>chunkEnd - 1\<close>. When rows are left, the closure hands itself
  to the scheduler and returns; the next chunk runs whenever the browser calls it back,
  after any event that arrives before. \<open>lastFields\<close> and \<open>lastMatches\<close> are read
  from the module's variables at the time of the run.
\<close>

definition renderChunk :: "dataset \<Rightarrow> nat \<Rightarrow> nat \<Rightarrow> session \<Rightarrow> session" where
  "renderChunk toShow end i s =
     (let chunkEnd = min (i + CHUNK_SIZE) (length toShow);
          s1 = s\<lparr>cards := cards s @ map (makeCard (lastFields s)) (take (chunkEnd - i) (drop i toShow))\<rparr>;
          i1 = max i chunkEnd
      in if i1 < length toShow then requestIdleCallback (toShow, end, i1) s1
         else
           let s2 = showSpinner False s1
           in if length (lastMatches s2) > end
              then s2\<lparr>loadMoreBtn := True, loadMoreButtons := loadMoreButtons s2 + 1\<rparr>
              else s2)"

text \<open>The browser calls the oldest pending callback.\<close>

definition runIdleCallback :: "session \<Rightarrow> session" where
  "runIdleCallback s =
     (case pending s of
        [] \<Rightarrow> s
      | (toShow, end, i) # rest \<Rightarrow> renderChunk toShow end i (s\<lparr>pending := rest\<rparr>))"

text \<open>
  The browser calls the pending callbacks, and those they schedule, until none is left,
  with no other event in between. Every chunk loop ends, so this does.
\<close>

function runIdleCallbacks :: "session \<Rightarrow> session" where
  "runIdleCallbacks s = (if pending s = [] then s else runIdleCallbacks (runIdleCallback s))"
  by pat_completeness auto
termination
  by (relation "measure (\<lambda>s. sum_list (map (\<lambda>(toShow, e, i). Suc (length toShow - i)) (pending s)))")
     (auto simp: runIdleCallback_def renderChunk_def requestIdleCallback_def showSpinner_def
        Let_def CHUNK_SIZE_def min_def max_def
        split: list.splits prod.splits if_splits)

declare runIdleCallbacks.simps [simp del]

text \<open>
  A session at rest: no chunk loop is pending, and the page has no "Load More" button
  other than the one the variable holds.
\<close>

definition atRest :: "session \<Rightarrow> bool" where
  "atRest s \<longleftrightarrow> pending s = [] \<and> loadMoreButtons s = (if loadMoreBtn s then 1 else 0)"

definition renderCardsPage :: "session \<Rightarrow> session" where
  "renderCardsPage s =
     (let s1 = showSpinner True (clearLoadMoreBtn (s\<lparr>cards := []\<rparr>));
          end = currentPage s1 * CARDS_PER_PAGE;
          toShow = take end (lastMatches s1)
      in renderChunk toShow end 0 s1)"

text \<open>The \<open>onclick\<close> of a "Load More" button.\<close>

definition loadMoreBtn_onclick :: "session \<Rightarrow> session" where
  "loadMoreBtn_onclick s = renderCardsPage (s\<lparr>currentPage := currentPage s + 1\<rparr>)"

text \<open>The local \<open>matches\<close> of \<open>renderCards\<close>.\<close>

definition cardMatches :: "dataset \<Rightarrow> string list \<Rightarrow> string \<Rightarrow> dataset" where
  "cardMatches data flds searchTerm =
     (let term = trim (toLowerCase searchTerm);
          regFields = filter isRegistrationField flds
      in if term \<noteq> [] \<and> regFields \<noteq> []
         then filter
                (\<lambda>r. list_ex (\<lambda>field. includesStr (toLowerCase (cell r field)) term) regFields)
                data
         else data)"

definition renderCards :: "dataset \<Rightarrow> string list \<Rightarrow> string \<Rightarrow> session \<Rightarrow> session" where
  "renderCards data flds searchTerm s =
     (let s1 = clearLoadMoreBtn (s\<lparr>cards := []\<rparr>);
          matches = cardMatches data flds searchTerm
      in if matches = [] then showSpinner False (s1\<lparr>noMatchesShown := True\<rparr>)
         else renderCardsPage
                (s1\<lparr>noMatchesShown := False, lastMatches := matches, lastFields := flds,
                    lastSearchTerm := searchTerm, currentPage := 1\<rparr>))"

section \<open>Event handlers\<close>

text \<open>
  The debounced \<open>input\<close> handler of the search box: \<open>val\<close> is \<open>e.target.value\<close>,
  \<open>selectedField\<close> the value of the scope selector.
\<close>

definition searchInput_oninput :: "string \<Rightarrow> string \<Rightarrow> session \<Rightarrow> session" where
  "searchInput_oninput val selectedField s =
     (let searchTerm = trim val;
          s1 =
            (if searchTerm \<noteq> [] then
               let filteredData = searchData (selectedFields s) (excelData s) searchTerm selectedField
               in renderCards filteredData (selectedFields s) searchTerm
                    (s\<lparr>lastMatches := filteredData, lastFields := selectedFields s\<rparr>)
             else
               renderCards (excelData s) (selectedFields s) []
                 (s\<lparr>lastMatches := excelData s, lastFields := selectedFields s\<rparr>))
      in s1\<lparr>noMatchesShown := (searchTerm \<noteq> [] \<and> lastMatches s1 = [])\<rparr>)"

text \<open>The \<open>change\<close> handler of the scope selector; \<open>val\<close> is \<open>searchInput.value\<close>.\<close>

definition searchFieldSelect_onchange :: "string \<Rightarrow> string \<Rightarrow> session \<Rightarrow> session" where
  "searchFieldSelect_onchange val selectedField s =
     (let searchTerm = trim val in
      if searchTerm \<noteq> [] then
        let filteredData = searchData (selectedFields s) (excelData s) searchTerm selectedField;
            s1 = renderCards filteredData (selectedFields s) searchTerm
                   (s\<lparr>lastMatches := filteredData\<rparr>)
        in s1\<lparr>noMatchesShown := (filteredData = [])\<rparr>
      else s)"

text \<open>The message of an error, which the handler shows, is represented by its name.\<close>

definition errorMessage :: "error \<Rightarrow> string" where
  "errorMessage err =
     (case err of IDBError \<Rightarrow> ''IDBError'' | QuotaExceededError \<Rightarrow> ''QuotaExceededError'')"

text \<open>
  The \<open>click\<close> handler of the "Save Selection" button: \<open>checked\<close> are the values of the
  ticked boxes, \<open>now\<close> the time at which \<open>setExpiry\<close> runs.
\<close>

definition saveColumnsBtn_onclick ::
  "string list \<Rightarrow> int \<Rightarrow> session \<times> medium \<Rightarrow> session \<times> medium" where
  "saveColumnsBtn_onclick checked now sm =
     (case sm of
        (s, m) \<Rightarrow>
          if checked = [] then (alert ''Please select at least one field.'' s, m)
          else
            let s1 = s\<lparr>selectedFields := checked\<rparr> in
            (case saveToStorage m now (excelData s1) (selectedFields s1) of
               (Inl err, m1) \<Rightarrow> (alert (''Failed to save data: '' @ errorMessage err) s1, m1)
             | (Inr u, m1) \<Rightarrow>
                 (renderCards (excelData s1) (selectedFields s1) []
                    (s1\<lparr>columnSectionShown := False, searchSectionShown := True\<rparr>),
                  m1)))"

section \<open>Example data\<close>

text \<open>The two-row dataset of the spec's search scenario.\<close>

definition scenarioData :: dataset where
  "scenarioData =
     [[(''Name'', Str ''Alice''), (''Reg'', Str ''A100'')],
      [(''Name'', Str ''Bob''), (''Reg'', Str ''B200'')]]"

text \<open>A stock sheet with a numeric column; the second row's quantity is zero.\<close>

definition stockData :: dataset where
  "stockData =
     [[(''Item'', Str ''bolt''), (''Qty'', Num 10)], [(''Item'', Str ''nut''), (''Qty'', Num 0)]]"

text \<open>The module's variables and the page as they are when the script has loaded.\<close>

definition initialSession :: session where
  "initialSession =
     \<lparr>excelData = [], selectedFields = [], lastMatches = [], lastFields = [],
      lastSearchTerm = [], currentPage = 1, loadMoreBtn = False, loadMoreButtons = 0,
      cards = [],
      noMatchesShown = False, spinnerShown = False, columnSectionShown = False,
      searchSectionShown = False, alerts = [], pending = []\<rparr>"

text \<open>A dataset of 75 rows.\<close>

definition data75 :: dataset where
  "data75 = replicate 75 [(''Name'', Str ''x'')]"

text \<open>
  The session after a load of \<open>data75\<close>, a confirmed selection and two clicks on
  "Load More", each on the finished page.
\<close>

definition page3Session :: session where
  "page3Session =
     runIdleCallbacks
       (loadMoreBtn_onclick
          (runIdleCallbacks
             (loadMoreBtn_onclick
                (runIdleCallbacks
                   (renderCards data75 [''Name''] []
                      (initialSession\<lparr>excelData := data75, selectedFields := [''Name'']\<rparr>))))))"

text \<open>
  A store holding \<open>scenarioData\<close> with the selection \<open>Reg\<close>, saved at time 0; the
  same store when \<open>localStorage\<close> has come to refuse every write; and a one-row
  dataset of another sheet.
\<close>

definition cityData :: dataset where
  "cityData = [[(''City'', Str ''Paris'')]]"

definition savedMedium :: medium where
  "savedMedium =
     \<lparr>idb = Some scenarioData,
      ls = [CONFIG_KEY \<mapsto> JSON_stringify [''Reg''],
            EXPIRY_KEY \<mapsto> Number_toString 2592000000],
      idbOk = True,
      lsAccepts = (\<lambda>k v. True)\<rparr>"

definition fullMedium :: medium where
  "fullMedium = savedMedium\<lparr>lsAccepts := (\<lambda>k v. False)\<rparr>"

text \<open>
  The same store when \<open>localStorage\<close> has room for the selection and none for the
  timestamp.
\<close>

definition nearlyFullMedium :: medium where
  "nearlyFullMedium = savedMedium\<lparr>lsAccepts := (\<lambda>k v. k = CONFIG_KEY)\<rparr>"

text \<open>A working medium whose stored selection is cut off: \<open>["Reg"\<close>.\<close>

definition brokenConfig :: string where
  "brokenConfig = [CHR ''['', CHR 0x22, CHR ''R'', CHR ''e'', CHR ''g'', CHR 0x22]"

definition brokenMedium :: medium where
  "brokenMedium =
     \<lparr>idb = Some scenarioData,
      ls = [CONFIG_KEY \<mapsto> brokenConfig, EXPIRY_KEY \<mapsto> Number_toString 2592000000],
      idbOk = True,
      lsAccepts = (\<lambda>k v. True)\<rparr>"

text \<open>A working medium whose expiry entry is not a number.\<close>

definition noExpiryMedium :: medium where
  "noExpiryMedium =
     \<lparr>idb = Some scenarioData,
      ls = [CONFIG_KEY \<mapsto> JSON_stringify [''Reg''], EXPIRY_KEY \<mapsto> ''soon''],
      idbOk = True,
      lsAccepts = (\<lambda>k v. True)\<rparr>"

text \<open>An empty working medium.\<close>

definition emptyMedium :: medium where
  "emptyMedium = \<lparr>idb = None, ls = Map.empty, idbOk = True, lsAccepts = (\<lambda>k v. True)\<rparr>"

text \<open>The session after \<open>scenarioData\<close> has been read from a file.\<close>

definition uploadedSession :: session where
  "uploadedSession =
     initialSession\<lparr>excelData := scenarioData, selectedFields := [''Name'', ''Reg''],
       columnSectionShown := True, searchSectionShown := True\<rparr>"

section \<open>Facts about strings\<close>

lemma includesStr_sublist: "includesStr s t \<longleftrightarrow> sublist t s"
  by (induction s) (simp_all add: sublist_Cons_right)

lemma map_segment:
  assumes "map f v = ps' @ map f t @ ss'"
  shows "\<exists>ps w ss. v = ps @ w @ ss \<and> map f w = map f t"
proof -
  from assms have "\<exists>us vs. v = us @ vs \<and> ps' = map f us \<and> map f t @ ss' = map f vs"
    by (simp only: map_eq_append_conv)
  then obtain ps r where v: "v = ps @ r" and r: "map f r = map f t @ ss'"
    by (elim exE conjE) simp
  from r have "\<exists>us vs. r = us @ vs \<and> map f t = map f us \<and> ss' = map f vs"
    by (simp only: map_eq_append_conv)
  then obtain w ss where "r = w @ ss" "map f w = map f t"
    by (elim exE conjE) simp
  with v show ?thesis
    by (intro exI [of _ ps] exI [of _ w] exI [of _ ss]) simp
qed

text \<open>
  Containment up to letter case, spelled out: some segment of the text equals the term
  once both are put in lower case.
\<close>

lemma containsIgnoreCase_segment:
  "containsIgnoreCase v t \<longleftrightarrow> (\<exists>ps w ss. v = ps @ w @ ss \<and> toLowerCase w = toLowerCase t)"
proof
  assume "containsIgnoreCase v t"
  then have "\<exists>ps' ss'. map lowerChar v = ps' @ map lowerChar t @ ss'"
    by (simp only: containsIgnoreCase_def toLowerCase_def sublist_def)
  then show "\<exists>ps w ss. v = ps @ w @ ss \<and> toLowerCase w = toLowerCase t"
    unfolding toLowerCase_def by (elim exE) (rule map_segment)
next
  assume "\<exists>ps w ss. v = ps @ w @ ss \<and> toLowerCase w = toLowerCase t"
  then obtain ps w ss where "v = ps @ w @ ss" "toLowerCase w = toLowerCase t"
    by (elim exE conjE)
  then have "toLowerCase v = toLowerCase ps @ toLowerCase t @ toLowerCase ss"
    by (simp add: toLowerCase_def)
  then show "containsIgnoreCase v t"
    unfolding containsIgnoreCase_def by (simp only: sublist_appendI)
qed

lemma dropWhile_rev_dropWhile:
  "dropWhile P (rev (dropWhile P (rev (dropWhile P s)))) = rev (dropWhile P (rev (dropWhile P s)))"
proof (cases "dropWhile P (rev (dropWhile P s)) = []")
  case True
  show ?thesis unfolding True by simp
next
  case False
  define a where "a = dropWhile P s"
  define b where "b = dropWhile P (rev a)"
  from False have bne: "b \<noteq> []" by (simp add: a_def b_def)
  then have ane: "a \<noteq> []" by (auto simp: b_def)
  have "\<not> P (hd a)" using ane unfolding a_def by (simp add: hd_dropWhile)
  moreover have "last b = last (rev a)"
    using bne unfolding b_def by (metis last_appendR takeWhile_dropWhile_id)
  ultimately have "\<not> P (hd (rev b))"
    using ane bne by (simp add: hd_rev last_rev)
  then have "dropWhile P (rev b) = rev b"
    using bne by (cases "rev b") auto
  then show ?thesis by (simp add: a_def b_def)
qed

lemma trim_idem: "trim (trim s) = trim s"
  unfolding trim_def by (simp add: dropWhile_rev_dropWhile)

lemma isWhiteSpace_lowerChar: "isWhiteSpace (lowerChar c) = isWhiteSpace c"
  by (auto simp: lowerChar_def isWhiteSpace_def split: option.splits if_splits)

lemma dropWhile_ws_toLowerCase:
  "dropWhile isWhiteSpace (toLowerCase s) = toLowerCase (dropWhile isWhiteSpace s)"
  unfolding toLowerCase_def
  by (induction s) (simp_all add: isWhiteSpace_lowerChar)

lemma trim_toLowerCase: "trim (toLowerCase s) = toLowerCase (trim s)"
proof -
  have r: "rev (toLowerCase xs) = toLowerCase (rev xs)" for xs
    by (simp add: toLowerCase_def rev_map)
  show ?thesis
    unfolding trim_def by (simp add: dropWhile_ws_toLowerCase r)
qed

lemma toLowerCase_Nil_iff: "toLowerCase s = [] \<longleftrightarrow> s = []"
  by (simp add: toLowerCase_def)

section \<open>Search\<close>

text \<open>
  Claim C9. Filtering with a term that is empty or all white space is the identity, for
  every dataset, field selection and scope: \<open>searchData\<close> returns the dataset it was
  given, and so does the match computation of \<open>renderCards\<close>.
\<close>

theorem C9_empty_term_is_identity:
  assumes "trim t = []"
  shows "searchData sel data t scope = data \<and> cardMatches data flds t = data"
  using assms by (simp add: searchData_def cardMatches_def trim_toLowerCase toLowerCase_Nil_iff)

theorem C9_empty_term_is_identity_witness:
  "trim '' '' = [] \<and>
   searchData [''Name'', ''Reg''] scenarioData '' '' ''Reg'' = scenarioData \<and>
   cardMatches scenarioData [''Name'', ''Reg''] '' '' = scenarioData"
proof -
  have h: "trim '' '' = []"
    by (simp add: trim_def isWhiteSpace_def)
  from C9_empty_term_is_identity [OF h] h show ?thesis
    by blast
qed

text \<open>
  What \<open>searchData\<close> computes, for a term whose trimmed form is not empty and which it
  is given trimmed, as both of its callers do: the rows, in the order of the dataset, in
  which the text read by \<open>cell\<close> contains the term up to letter case, in some selected
  field for the scope \<open>'all'\<close>, in the scoped field otherwise.
\<close>

lemma searchData_matches_cell:
  assumes "trim val \<noteq> []"
  shows "searchData sel data (trim val) scope =
           filter
             (\<lambda>item.
                if scope = ''all''
                then \<exists>field \<in> set sel. containsIgnoreCase (cell item field) (trim val)
                else containsIgnoreCase (cell item scope) (trim val))
             data"
  using assms
  by (simp add: searchData_def trim_idem containsIgnoreCase_def includesStr_sublist
      list_ex_iff Let_def cong: if_cong)

lemma searchData_subseq: "subseq (searchData sel data t scope) data"
  by (simp add: searchData_def Let_def)

text \<open>
  \<open>cell\<close> is the stringified cell value except on a falsy value that is not the empty
  text: the number 0 and \<open>false\<close> are read as the empty string.
\<close>

lemma cell_stringified:
  "cell item field =
     (if map_of item field = Some (Num 0) \<or> map_of item field = Some (Bool False) then []
      else stringified item field)"
proof (cases "map_of item field")
  case None
  then show ?thesis by (simp add: cell_def stringified_def)
next
  case (Some v)
  then show ?thesis by (cases v) (auto simp: cell_def stringified_def)
qed

text \<open>
  So on a dataset without the number 0 and without \<open>false\<close>, in particular on one whose
  cells are all texts, \<open>searchData\<close> returns exactly the rows whose stringified cell
  contains the term.
\<close>

lemma searchData_matches_stringified:
  assumes "trim val \<noteq> []"
    and "\<And>item field. item \<in> set data \<Longrightarrow>
           map_of item field \<noteq> Some (Num 0) \<and> map_of item field \<noteq> Some (Bool False)"
  shows "searchData sel data (trim val) scope =
           filter
             (\<lambda>item.
                if scope = ''all''
                then \<exists>field \<in> set sel. containsIgnoreCase (stringified item field) (trim val)
                else containsIgnoreCase (stringified item scope) (trim val))
             data"
proof -
  have "cell item field = stringified item field" if "item \<in> set data" for item field
    using assms(2) [OF that, of field] by (simp add: cell_stringified)
  then show ?thesis
    unfolding searchData_matches_cell [OF assms(1)]
    by (intro filter_cong) simp_all
qed

lemma searchData_scenario:
  "searchData [''Name'', ''Reg''] scenarioData (trim '' a1 '') ''Reg'' =
     [[(''Name'', Str ''Alice''), (''Reg'', Str ''A100'')]]"
proof -
  have t: "trim '' a1 '' = ''a1''"
    by (simp add: trim_def isWhiteSpace_def)
  show ?thesis
    unfolding t
    by (simp add: searchData_def t trim_def isWhiteSpace_def scenarioData_def cell_def
        toLowerCase_def lowerChar_def)
qed

lemma Number_toString_0: "Number_toString 0 = ''0''"
  by (simp add: Number_toString_def digitsOf.simps digitChar_def)

lemma Number_toString_10: "Number_toString 10 = ''10''"
  by (simp add: Number_toString_def digitsOf.simps [of 10] digitsOf.simps [of 1]
      digitsOf.simps [of 0] digitChar_def)

text \<open>
  Claim C1 says that the search returns exactly the rows in which the stringified value
  of a searched cell contains the term. In \<open>stockData\<close> the quantity of the second row
  is the number 0, whose stringified value \<open>0\<close> contains the term \<open>0\<close>, as the first
  row's \<open>10\<close> does. \<open>searchData\<close> reads the cell through \<open>item[field] || ''\<close>, which
  turns the falsy 0 into the empty string before \<open>String\<close> is applied, and returns the
  first row only, for the scope \<open>'all'\<close> and for the scope \<open>Qty\<close>.
\<close>

theorem C1_zero_cell_is_not_found:
  "trim ''0'' = ''0'' \<and>
   containsIgnoreCase (stringified [(''Item'', Str ''bolt''), (''Qty'', Num 10)] ''Qty'') ''0'' \<and>
   containsIgnoreCase (stringified [(''Item'', Str ''nut''), (''Qty'', Num 0)] ''Qty'') ''0'' \<and>
   searchData [''Item'', ''Qty''] stockData (trim ''0'') ''all'' =
     [[(''Item'', Str ''bolt''), (''Qty'', Num 10)]] \<and>
   searchData [''Item'', ''Qty''] stockData (trim ''0'') ''Qty'' =
     [[(''Item'', Str ''bolt''), (''Qty'', Num 10)]]"
proof -
  have t: "trim ''0'' = ''0''"
    by (simp add: trim_def isWhiteSpace_def)
  have c: "containsIgnoreCase (stringified [(''Item'', Str ''bolt''), (''Qty'', Num 10)] ''Qty'') ''0''"
    "containsIgnoreCase (stringified [(''Item'', Str ''nut''), (''Qty'', Num 0)] ''Qty'') ''0''"
    by (simp_all add: containsIgnoreCase_def stringified_def Number_toString_0 Number_toString_10
        includesStr_sublist [symmetric] toLowerCase_def lowerChar_def)
  have a: "searchData [''Item'', ''Qty''] stockData ''0'' ''all'' =
     [[(''Item'', Str ''bolt''), (''Qty'', Num 10)]]"
    by (simp add: searchData_def t stockData_def cell_def Number_toString_10
        toLowerCase_def lowerChar_def)
  have q: "searchData [''Item'', ''Qty''] stockData ''0'' ''Qty'' =
     [[(''Item'', Str ''bolt''), (''Qty'', Num 10)]]"
    by (simp add: searchData_def t stockData_def cell_def Number_toString_10
        toLowerCase_def lowerChar_def)
  show ?thesis
    unfolding t using c a q by simp
qed

text \<open>
  \<open>searchData\<close> itself trims the term only for its emptiness test; it relies on its
  callers for the trimming.
\<close>

lemma searchData_untrimmed_term:
  "searchData [''Name''] [[(''Name'', Str ''a'')]] '' a '' ''all'' = []"
  by (simp add: searchData_def trim_def isWhiteSpace_def toLowerCase_def lowerChar_def cell_def)

text \<open>
  \<open>renderCards\<close> filters what it is given once more: when the selection has a field
  whose name contains \<open>registratio\<close>, only rows matching in such a field are shown.
\<close>

lemma cardMatches_registration_fields:
  assumes "trim t \<noteq> []" and "filter isRegistrationField flds \<noteq> []"
  shows "cardMatches data flds t =
           filter
             (\<lambda>r. \<exists>field \<in> set flds.
                    isRegistrationField field \<and> containsIgnoreCase (cell r field) (trim t))
             data"
proof -
  have l: "toLowerCase (toLowerCase s) = toLowerCase s" for s
    by (simp add: toLowerCase_def lowerChar_def split: option.splits)
  show ?thesis using assms
    by (simp add: cardMatches_def trim_toLowerCase toLowerCase_Nil_iff containsIgnoreCase_def
        includesStr_sublist list_ex_iff l Bex_def)
qed

section \<open>The card renderer\<close>

lemma clearLoadMoreBtn_result:
  "clearLoadMoreBtn s =
     s\<lparr>loadMoreButtons := (if loadMoreBtn s then loadMoreButtons s - 1 else loadMoreButtons s),
       loadMoreBtn := False\<rparr>"
  by (simp add: clearLoadMoreBtn_def Let_def)

lemma renderChunk_more:
  assumes "i + CHUNK_SIZE < length toShow"
  shows "renderChunk toShow e i s =
           s\<lparr>cards := cards s @ map (makeCard (lastFields s)) (take CHUNK_SIZE (drop i toShow)),
             pending := pending s @ [(toShow, e, i + CHUNK_SIZE)]\<rparr>"
  using assms
  by (simp add: renderChunk_def requestIdleCallback_def Let_def min_def max_def)

lemma renderChunk_last:
  assumes "i \<le> length toShow" and "length toShow \<le> i + CHUNK_SIZE"
  shows "renderChunk toShow e i s =
           s\<lparr>cards := cards s @ map (makeCard (lastFields s)) (drop i toShow),
             spinnerShown := False,
             loadMoreBtn := (length (lastMatches s) > e \<or> loadMoreBtn s),
             loadMoreButtons :=
               (if length (lastMatches s) > e then loadMoreButtons s + 1 else loadMoreButtons s)\<rparr>"
  using assms
  by (simp add: renderChunk_def requestIdleCallback_def Let_def min_def max_def showSpinner_def)

text \<open>A chunk touches the cards, the spinner, the button and the scheduler only.\<close>

lemma renderChunk_keeps:
  "excelData (renderChunk toShow e i s) = excelData s"
  "selectedFields (renderChunk toShow e i s) = selectedFields s"
  "lastMatches (renderChunk toShow e i s) = lastMatches s"
  "lastFields (renderChunk toShow e i s) = lastFields s"
  "lastSearchTerm (renderChunk toShow e i s) = lastSearchTerm s"
  "currentPage (renderChunk toShow e i s) = currentPage s"
  "noMatchesShown (renderChunk toShow e i s) = noMatchesShown s"
  "columnSectionShown (renderChunk toShow e i s) = columnSectionShown s"
  "searchSectionShown (renderChunk toShow e i s) = searchSectionShown s"
  "alerts (renderChunk toShow e i s) = alerts s"
  by (simp_all add: renderChunk_def requestIdleCallback_def Let_def showSpinner_def)

lemma runIdleCallbacks_Nil:
  "pending s = [] \<Longrightarrow> runIdleCallbacks s = s"
  by (subst runIdleCallbacks.simps) simp

lemma runIdleCallbacks_Cons:
  "pending s = (toShow, e, i) # rest \<Longrightarrow>
   runIdleCallbacks s = runIdleCallbacks (renderChunk toShow e i (s\<lparr>pending := rest\<rparr>))"
  by (subst runIdleCallbacks.simps) (simp add: runIdleCallback_def)

text \<open>
  A chunk loop that is alone in the scheduler attaches the cards of all the rows it has
  left, in order, and ends with the spinner hidden and the button if there are more
  matches than \<open>end\<close>.
\<close>

lemma runIdleCallbacks_renderChunk:
  "pending s = [] \<Longrightarrow> i \<le> length toShow \<Longrightarrow>
   runIdleCallbacks (renderChunk toShow e i s) =
     s\<lparr>cards := cards s @ map (makeCard (lastFields s)) (drop i toShow),
       spinnerShown := False,
       loadMoreBtn := (length (lastMatches s) > e \<or> loadMoreBtn s),
       loadMoreButtons :=
         (if length (lastMatches s) > e then loadMoreButtons s + 1 else loadMoreButtons s)\<rparr>"
proof (induction "length toShow - i" arbitrary: i s rule: less_induct)
  case less
  show ?case
  proof (cases "i + CHUNK_SIZE < length toShow")
    case True
    define s1 where
      "s1 = s\<lparr>cards := cards s @ map (makeCard (lastFields s)) (take CHUNK_SIZE (drop i toShow))\<rparr>"
    have p1: "pending s1 = []"
      using less.prems by (simp add: s1_def)
    have smaller: "length toShow - (i + CHUNK_SIZE) < length toShow - i"
      using True by (simp add: CHUNK_SIZE_def)
    have le: "i + CHUNK_SIZE \<le> length toShow"
      using True by simp
    have "take CHUNK_SIZE (drop i toShow) @ drop (i + CHUNK_SIZE) toShow = drop i toShow"
      by (metis add.commute append_take_drop_id drop_drop)
    then have parts:
      "map (makeCard (lastFields s)) (take CHUNK_SIZE (drop i toShow)) @
       map (makeCard (lastFields s)) (drop (i + CHUNK_SIZE) toShow) =
       map (makeCard (lastFields s)) (drop i toShow)"
      by (simp flip: map_append)
    have sched: "renderChunk toShow e i s = s1\<lparr>pending := [(toShow, e, i + CHUNK_SIZE)]\<rparr>"
      using True less.prems by (simp add: renderChunk_more s1_def)
    have popped: "(s1\<lparr>pending := [(toShow, e, i + CHUNK_SIZE)]\<rparr>)\<lparr>pending := []\<rparr> = s1"
      using p1 by simp
    have "runIdleCallbacks (renderChunk toShow e i s) =
            runIdleCallbacks (renderChunk toShow e (i + CHUNK_SIZE) s1)"
      unfolding sched
      by (subst runIdleCallbacks_Cons [of _ toShow e "i + CHUNK_SIZE" "[]"])
         (simp_all only: popped, simp)
    also have "\<dots> =
        s1\<lparr>cards := cards s1 @ map (makeCard (lastFields s1)) (drop (i + CHUNK_SIZE) toShow),
           spinnerShown := False,
           loadMoreBtn := (length (lastMatches s1) > e \<or> loadMoreBtn s1),
           loadMoreButtons :=
             (if length (lastMatches s1) > e then loadMoreButtons s1 + 1 else loadMoreButtons s1)\<rparr>"
      using less.hyps [OF smaller p1 le] .
    also have "\<dots> =
        s\<lparr>cards := cards s @ map (makeCard (lastFields s)) (drop i toShow),
          spinnerShown := False,
          loadMoreBtn := (length (lastMatches s) > e \<or> loadMoreBtn s),
          loadMoreButtons :=
            (if length (lastMatches s) > e then loadMoreButtons s + 1 else loadMoreButtons s)\<rparr>"
      by (simp add: s1_def parts)
    finally show ?thesis .
  next
    case False
    then have last: "length toShow \<le> i + CHUNK_SIZE"
      by simp
    have "pending (renderChunk toShow e i s) = []"
      using less.prems by (simp add: renderChunk_last [OF less.prems(2) last])
    then have "runIdleCallbacks (renderChunk toShow e i s) = renderChunk toShow e i s"
      by (rule runIdleCallbacks_Nil)
    then show ?thesis
      by (simp add: renderChunk_last [OF less.prems(2) last])
  qed
qed

text \<open>
  \<open>renderCardsPage\<close> at its return: the first chunk of the page is attached; the rest
  of the page, if any, is left to the scheduler, behind the loops already pending.
\<close>

lemma renderCardsPage_return:
  "renderCardsPage s =
     (if CHUNK_SIZE < length (take (currentPage s * CARDS_PER_PAGE) (lastMatches s))
      then s\<lparr>cards := map (makeCard (lastFields s))
                        (take CHUNK_SIZE (take (currentPage s * CARDS_PER_PAGE) (lastMatches s))),
             spinnerShown := True,
             loadMoreBtn := False,
             loadMoreButtons := (if loadMoreBtn s then loadMoreButtons s - 1 else loadMoreButtons s),
             pending := pending s @
               [(take (currentPage s * CARDS_PER_PAGE) (lastMatches s),
                 currentPage s * CARDS_PER_PAGE, CHUNK_SIZE)]\<rparr>
      else s\<lparr>cards := map (makeCard (lastFields s))
                        (take (currentPage s * CARDS_PER_PAGE) (lastMatches s)),
             spinnerShown := False,
             loadMoreBtn := (length (lastMatches s) > currentPage s * CARDS_PER_PAGE),
             loadMoreButtons :=
               (if loadMoreBtn s then loadMoreButtons s - 1 else loadMoreButtons s) +
               (if length (lastMatches s) > currentPage s * CARDS_PER_PAGE then 1 else 0)\<rparr>)"
proof -
  define toShow where "toShow = take (currentPage s * CARDS_PER_PAGE) (lastMatches s)"
  define s1 where "s1 = showSpinner True (clearLoadMoreBtn (s\<lparr>cards := []\<rparr>))"
  have s1: "s1 = s\<lparr>cards := [],
      loadMoreButtons := (if loadMoreBtn s then loadMoreButtons s - 1 else loadMoreButtons s),
      loadMoreBtn := False, spinnerShown := True\<rparr>"
    by (simp add: s1_def showSpinner_def clearLoadMoreBtn_result)
  have call: "renderCardsPage s = renderChunk toShow (currentPage s * CARDS_PER_PAGE) 0 s1"
    by (simp add: renderCardsPage_def Let_def s1_def toShow_def showSpinner_def
        clearLoadMoreBtn_result)
  show ?thesis
  proof (cases "CHUNK_SIZE < length toShow")
    case True
    then have "0 + CHUNK_SIZE < length toShow"
      by simp
    from renderChunk_more [OF this]
    have "renderCardsPage s =
            s1\<lparr>cards := cards s1 @ map (makeCard (lastFields s1)) (take CHUNK_SIZE (drop 0 toShow)),
               pending := pending s1 @ [(toShow, currentPage s * CARDS_PER_PAGE, 0 + CHUNK_SIZE)]\<rparr>"
      unfolding call .
    also have "\<dots> =
            s\<lparr>cards := map (makeCard (lastFields s)) (take CHUNK_SIZE toShow),
              spinnerShown := True,
              loadMoreBtn := False,
              loadMoreButtons := (if loadMoreBtn s then loadMoreButtons s - 1 else loadMoreButtons s),
              pending := pending s @ [(toShow, currentPage s * CARDS_PER_PAGE, CHUNK_SIZE)]\<rparr>"
      by (simp add: s1)
    finally show ?thesis
      using True unfolding toShow_def by (simp only: if_True)
  next
    case False
    then have "length toShow \<le> 0 + CHUNK_SIZE"
      by simp
    from renderChunk_last [OF _ this]
    have "renderCardsPage s =
            s1\<lparr>cards := cards s1 @ map (makeCard (lastFields s1)) (drop 0 toShow),
               spinnerShown := False,
               loadMoreBtn := (length (lastMatches s1) > currentPage s * CARDS_PER_PAGE \<or> loadMoreBtn s1),
               loadMoreButtons :=
                 (if length (lastMatches s1) > currentPage s * CARDS_PER_PAGE
                  then loadMoreButtons s1 + 1 else loadMoreButtons s1)\<rparr>"
      unfolding call by simp
    also have "\<dots> =
            s\<lparr>cards := map (makeCard (lastFields s)) toShow,
              spinnerShown := False,
              loadMoreBtn := (length (lastMatches s) > currentPage s * CARDS_PER_PAGE),
              loadMoreButtons :=
                (if loadMoreBtn s then loadMoreButtons s - 1 else loadMoreButtons s) +
                (if length (lastMatches s) > currentPage s * CARDS_PER_PAGE then 1 else 0)\<rparr>"
      by (simp add: s1)
    finally show ?thesis
      using False unfolding toShow_def by (simp only: if_False)
  qed
qed

text \<open>\<open>renderCardsPage\<close> from a state with no pending loop, once its chunks have run.\<close>

lemma renderCardsPage_result:
  assumes "pending s = []"
  shows "runIdleCallbacks (renderCardsPage s) =
     s\<lparr>cards := map (makeCard (lastFields s)) (take (currentPage s * CARDS_PER_PAGE) (lastMatches s)),
       spinnerShown := False,
       loadMoreBtn := (length (lastMatches s) > currentPage s * CARDS_PER_PAGE),
       loadMoreButtons :=
         (if loadMoreBtn s then loadMoreButtons s - 1 else loadMoreButtons s) +
         (if length (lastMatches s) > currentPage s * CARDS_PER_PAGE then 1 else 0)\<rparr>"
proof -
  define s1 where "s1 = showSpinner True (clearLoadMoreBtn (s\<lparr>cards := []\<rparr>))"
  have p1: "pending s1 = []"
    using assms by (simp add: s1_def showSpinner_def clearLoadMoreBtn_result Let_def)
  have "renderCardsPage s =
          renderChunk (take (currentPage s1 * CARDS_PER_PAGE) (lastMatches s1))
            (currentPage s1 * CARDS_PER_PAGE) 0 s1"
    by (simp add: renderCardsPage_def Let_def s1_def)
  then show ?thesis
    using runIdleCallbacks_renderChunk [OF p1, of 0
        "take (currentPage s1 * CARDS_PER_PAGE) (lastMatches s1)" "currentPage s1 * CARDS_PER_PAGE"]
    by (simp add: s1_def showSpinner_def clearLoadMoreBtn_result Let_def)
qed

lemma renderCards_empty:
  "cardMatches data flds t = [] \<Longrightarrow>
   renderCards data flds t s =
     s\<lparr>cards := [], loadMoreBtn := False,
       loadMoreButtons := (if loadMoreBtn s then loadMoreButtons s - 1 else loadMoreButtons s),
       noMatchesShown := True, spinnerShown := False\<rparr>"
  by (simp add: renderCards_def Let_def showSpinner_def clearLoadMoreBtn_result)

lemma renderCards_nonempty:
  "cardMatches data flds t \<noteq> [] \<Longrightarrow>
   renderCards data flds t s =
     renderCardsPage
       (s\<lparr>cards := [], loadMoreBtn := False,
          loadMoreButtons := (if loadMoreBtn s then loadMoreButtons s - 1 else loadMoreButtons s),
          noMatchesShown := False, lastMatches := cardMatches data flds t, lastFields := flds,
          lastSearchTerm := t, currentPage := 1\<rparr>)"
proof -
  have "clearLoadMoreBtn (s\<lparr>cards := []\<rparr>)
          \<lparr>noMatchesShown := False, lastMatches := cardMatches data flds t, lastFields := flds,
           lastSearchTerm := t, currentPage := 1\<rparr> =
        s\<lparr>cards := [], loadMoreBtn := False,
          loadMoreButtons := (if loadMoreBtn s then loadMoreButtons s - 1 else loadMoreButtons s),
          noMatchesShown := False, lastMatches := cardMatches data flds t, lastFields := flds,
          lastSearchTerm := t, currentPage := 1\<rparr>"
    by (simp add: clearLoadMoreBtn_result)
  then show "cardMatches data flds t \<noteq> [] \<Longrightarrow> ?thesis"
    by (simp add: renderCards_def Let_def)
qed

lemma renderCards_keeps:
  "excelData (renderCards data flds t s) = excelData s"
  "selectedFields (renderCards data flds t s) = selectedFields s"
  "columnSectionShown (renderCards data flds t s) = columnSectionShown s"
  "searchSectionShown (renderCards data flds t s) = searchSectionShown s"
  "alerts (renderCards data flds t s) = alerts s"
  by (simp_all add: renderCards_def renderCardsPage_def Let_def showSpinner_def
      clearLoadMoreBtn_result renderChunk_keeps)

text \<open>\<open>renderCards\<close> from a state with no pending loop, once its chunks have run.\<close>

lemma renderCards_result:
  assumes "pending s = []"
  shows "runIdleCallbacks (renderCards data flds t s) =
     (if cardMatches data flds t = []
      then s\<lparr>cards := [], loadMoreBtn := False,
             loadMoreButtons := (if loadMoreBtn s then loadMoreButtons s - 1 else loadMoreButtons s),
             noMatchesShown := True, spinnerShown := False\<rparr>
      else s\<lparr>lastMatches := cardMatches data flds t, lastFields := flds, lastSearchTerm := t,
             currentPage := 1,
             loadMoreBtn := (length (cardMatches data flds t) > CARDS_PER_PAGE),
             loadMoreButtons :=
               (if loadMoreBtn s then loadMoreButtons s - 1 else loadMoreButtons s) +
               (if length (cardMatches data flds t) > CARDS_PER_PAGE then 1 else 0),
             cards := map (makeCard flds) (take CARDS_PER_PAGE (cardMatches data flds t)),
             noMatchesShown := False, spinnerShown := False\<rparr>)"
proof (cases "cardMatches data flds t = []")
  case True
  then show ?thesis
    using assms by (simp add: renderCards_empty runIdleCallbacks_Nil)
next
  case False
  then show ?thesis
    using assms by (simp add: renderCards_nonempty renderCardsPage_result)
qed

lemma loadMoreBtn_onclick_result:
  assumes "pending s = []"
  shows "runIdleCallbacks (loadMoreBtn_onclick s) =
     s\<lparr>currentPage := currentPage s + 1,
       cards := map (makeCard (lastFields s)) (take ((currentPage s + 1) * CARDS_PER_PAGE) (lastMatches s)),
       spinnerShown := False,
       loadMoreBtn := (length (lastMatches s) > (currentPage s + 1) * CARDS_PER_PAGE),
       loadMoreButtons :=
         (if loadMoreBtn s then loadMoreButtons s - 1 else loadMoreButtons s) +
         (if length (lastMatches s) > (currentPage s + 1) * CARDS_PER_PAGE then 1 else 0)\<rparr>"
  using assms by (simp add: loadMoreBtn_onclick_def renderCardsPage_result)

text \<open>
  A render request does not cancel a chunk loop that is pending. A request for 75 rows
  attaches its first 10 cards and leaves rows 10 to 29 to the scheduler; a request with
  no match that arrives before the scheduler runs empties the page and shows the
  no-matches indicator; the pending loop then attaches its 20 cards and the button.
\<close>

lemma pending_chunks_outlive_empty_render:
  "length (cards (renderCards data75 [''Name''] [] initialSession)) = 10 \<and>
   pending (renderCards data75 [''Name''] [] initialSession) = [(take 30 data75, 30, 10)] \<and>
   cards (renderCards [] [''Name''] ''zzz'' (renderCards data75 [''Name''] [] initialSession)) = [] \<and>
   pending (renderCards [] [''Name''] ''zzz'' (renderCards data75 [''Name''] [] initialSession)) =
     [(take 30 data75, 30, 10)] \<and>
   length (cards (runIdleCallbacks
     (renderCards [] [''Name''] ''zzz'' (renderCards data75 [''Name''] [] initialSession)))) = 20 \<and>
   loadMoreBtn (runIdleCallbacks
     (renderCards [] [''Name''] ''zzz'' (renderCards data75 [''Name''] [] initialSession))) \<and>
   noMatchesShown (runIdleCallbacks
     (renderCards [] [''Name''] ''zzz'' (renderCards data75 [''Name''] [] initialSession)))"
proof -
  define r where "r = renderCards data75 [''Name''] [] initialSession"
  define q where "q = renderCards [] [''Name''] ''zzz'' r"
  have m: "cardMatches data75 [''Name''] [] = data75"
    by (simp add: cardMatches_def trim_def toLowerCase_def)
  have ne: "data75 \<noteq> []" and len: "length data75 = 75"
    by (simp_all add: data75_def)
  have c: "cardMatches [] [''Name''] ''zzz'' = []"
    by (simp add: cardMatches_def Let_def)
  have r: "r = initialSession\<lparr>lastMatches := data75, lastFields := [''Name''],
      cards := map (makeCard [''Name'']) (take 10 data75), spinnerShown := True,
      pending := [(take 30 data75, 30, 10)]\<rparr>"
    by (simp add: r_def renderCards_nonempty m ne renderCardsPage_return len
        CARDS_PER_PAGE_def CHUNK_SIZE_def initialSession_def)
  have q: "q = r\<lparr>cards := [], noMatchesShown := True, spinnerShown := False\<rparr>"
    by (simp add: q_def renderCards_empty c) (simp add: r initialSession_def)
  have pq: "pending q = (take 30 data75, 30, 10) # []"
    by (simp add: q r)
  have q0: "pending (q\<lparr>pending := []\<rparr>) = []"
    by simp
  have "runIdleCallbacks q =
          q\<lparr>pending := [], cards := map (makeCard [''Name'']) (drop 10 (take 30 data75)),
            loadMoreBtn := True, loadMoreButtons := 1\<rparr>"
    unfolding runIdleCallbacks_Cons [OF pq]
    by (subst runIdleCallbacks_renderChunk [OF q0])
       (simp_all add: len, simp add: q r initialSession_def len)
  then have "length (cards (runIdleCallbacks q)) = 20 \<and> loadMoreBtn (runIdleCallbacks q) \<and>
             noMatchesShown (runIdleCallbacks q)"
    by (simp add: len q)
  moreover have "length (cards r) = 10 \<and> pending r = [(take 30 data75, 30, 10)]"
    by (simp add: r len)
  moreover have "cards q = [] \<and> pending q = [(take 30 data75, 30, 10)]"
    by (simp add: q r)
  ultimately show ?thesis
    unfolding q_def r_def by simp
qed

lemma atRest_renderCardsPage:
  assumes "atRest s"
  shows "atRest (runIdleCallbacks (renderCardsPage s))"
  using assms by (simp add: atRest_def renderCardsPage_result)

lemma atRest_renderCards:
  assumes "atRest s"
  shows "atRest (runIdleCallbacks (renderCards data flds t s))"
  using assms by (simp add: atRest_def renderCards_result)

lemma atRest_loadMoreBtn_onclick:
  assumes "atRest s"
  shows "atRest (runIdleCallbacks (loadMoreBtn_onclick s))"
  using assms by (simp add: atRest_def loadMoreBtn_onclick_result)


lemma atRest_initialSession: "atRest initialSession"
  by (simp add: atRest_def initialSession_def)

lemma cardMatches_no_term: "cardMatches data flds [] = data"
  by (simp add: cardMatches_def trim_def toLowerCase_def)

lemma page3Session_result:
  "page3Session =
     initialSession\<lparr>excelData := data75, selectedFields := [''Name''], lastMatches := data75,
       lastFields := [''Name''], currentPage := 3, cards := map (makeCard [''Name'']) data75\<rparr>"
proof -
  define s0 where "s0 = initialSession\<lparr>excelData := data75, selectedFields := [''Name'']\<rparr>"
  define r1 where "r1 = runIdleCallbacks (renderCards data75 [''Name''] [] s0)"
  define r2 where "r2 = runIdleCallbacks (loadMoreBtn_onclick r1)"
  have ne: "data75 \<noteq> []" and len: "length data75 = 75"
    by (simp_all add: data75_def)
  have a0: "atRest s0"
    by (simp add: s0_def atRest_def initialSession_def)
  then have a1: "atRest r1"
    unfolding r1_def by (rule atRest_renderCards)
  then have a2: "atRest r2"
    unfolding r2_def by (rule atRest_loadMoreBtn_onclick)
  have r1: "r1 = s0\<lparr>lastMatches := data75, lastFields := [''Name''], loadMoreBtn := True,
      loadMoreButtons := 1, cards := map (makeCard [''Name'']) (take 30 data75)\<rparr>"
    using a0 unfolding r1_def
    by (simp add: atRest_def renderCards_result cardMatches_no_term ne len CARDS_PER_PAGE_def)
       (simp add: s0_def initialSession_def)
  have r2: "r2 = r1\<lparr>currentPage := 2, cards := map (makeCard [''Name'']) (take 60 data75)\<rparr>"
    using a1 unfolding r2_def
    by (simp add: atRest_def loadMoreBtn_onclick_result)
       (simp add: r1 s0_def initialSession_def len CARDS_PER_PAGE_def)
  have "runIdleCallbacks (loadMoreBtn_onclick r2) =
          r2\<lparr>currentPage := 3, cards := map (makeCard [''Name'']) data75, loadMoreBtn := False,
            loadMoreButtons := 0\<rparr>"
    using a2
    by (simp add: atRest_def loadMoreBtn_onclick_result)
       (simp add: r2 r1 s0_def initialSession_def len CARDS_PER_PAGE_def)
  then show ?thesis
    unfolding page3Session_def
    by (simp add: r2_def [symmetric] r1_def [symmetric] s0_def [symmetric])
       (simp add: r2 r1 s0_def initialSession_def)
qed



text \<open>
  Claim C8 says that every render request for a changed match set, an empty one
  included, resets \<open>currentPage\<close> to 1. On page 3, with the page finished, a search for
  \<open>zzz\<close> matches no row, and \<open>renderCards\<close> returns at its test for an empty match
  set, before the assignment to \<open>currentPage\<close>: the page stays 3.
\<close>

theorem C8_empty_match_set_keeps_page:
  "currentPage page3Session = 3 \<and>
   pending page3Session = [] \<and>
   searchData [''Name''] data75 ''zzz'' ''all'' = [] \<and>
   currentPage (renderCards [] [''Name''] ''zzz'' page3Session) = 3 \<and>
   currentPage (searchInput_oninput ''zzz'' ''all'' page3Session) = 3"
proof -
  have p: "currentPage page3Session = 3"
    and q: "pending page3Session = []"
    and e: "excelData page3Session = data75"
    and f: "selectedFields page3Session = [''Name'']"
    by (simp_all add: page3Session_result initialSession_def)
  have t: "trim ''zzz'' = ''zzz''"
    by (simp add: trim_def isWhiteSpace_def)
  have sd: "searchData [''Name''] data75 ''zzz'' ''all'' = []"
    by (simp add: searchData_def t data75_def toLowerCase_def lowerChar_def cell_def)
  have c: "cardMatches [] flds u = []" for flds u
    by (simp add: cardMatches_def Let_def)
  have r: "currentPage (renderCards [] [''Name''] ''zzz'' page3Session) = 3"
    by (simp add: renderCards_empty c p)
  have h: "currentPage (searchInput_oninput ''zzz'' ''all'' page3Session) = 3"
    by (simp add: searchInput_oninput_def t e f sd renderCards_empty c p)
  from p q sd r h show ?thesis
    by simp
qed

text \<open>
  Claim C8, amended. A render request whose match set is not empty sets \<open>currentPage\<close>
  to 1 before it starts its page render: at its return \<open>currentPage\<close> is 1, the cards
  are the first chunk of the first 30 new matches, and the rest of that first page is
  left to the scheduler behind the chunk loops that were already pending; when none was
  pending, the page stays 1 and the cards are the first page of the new matches once
  the chunks have run. A request whose match set is empty returns before the assignment:
  at its return the cards are cleared, the button the variable held is removed, the
  no-matches indicator is shown and the spinner hidden, and \<open>currentPage\<close>,
  \<open>lastMatches\<close> and all the rest are as they were. In particular it cancels no
  pending chunk loop: \<open>pending_chunks_outlive_empty_render\<close> shows such a loop
  attaching its cards and its button afterwards.
\<close>

theorem C8_render_resets_page_unless_empty:
  "(if cardMatches data flds t = []
    then renderCards data flds t s =
           s\<lparr>cards := [], loadMoreBtn := False,
             loadMoreButtons := (if loadMoreBtn s then loadMoreButtons s - 1 else loadMoreButtons s),
             noMatchesShown := True, spinnerShown := False\<rparr>
    else currentPage (renderCards data flds t s) = 1 \<and>
         lastMatches (renderCards data flds t s) = cardMatches data flds t \<and>
         cards (renderCards data flds t s) =
           map (makeCard flds) (take CHUNK_SIZE (take (1 * CARDS_PER_PAGE) (cardMatches data flds t))) \<and>
         pending (renderCards data flds t s) =
           pending s @
           (if CHUNK_SIZE < length (take (1 * CARDS_PER_PAGE) (cardMatches data flds t))
            then [(take (1 * CARDS_PER_PAGE) (cardMatches data flds t), 1 * CARDS_PER_PAGE, CHUNK_SIZE)]
            else []) \<and>
         (pending s = [] \<longrightarrow>
            currentPage (runIdleCallbacks (renderCards data flds t s)) = 1 \<and>
            cards (runIdleCallbacks (renderCards data flds t s)) =
              map (makeCard flds) (take (1 * CARDS_PER_PAGE) (cardMatches data flds t))))"
proof (cases "cardMatches data flds t = []")
  case True
  then show ?thesis
    by (simp add: renderCards_empty)
next
  case False
  define toShow where "toShow = take CARDS_PER_PAGE (cardMatches data flds t)"
  have small: "\<not> CHUNK_SIZE < length toShow \<Longrightarrow> take CHUNK_SIZE toShow = toShow"
    by simp
  have now: "currentPage (renderCards data flds t s) = 1 \<and>
         lastMatches (renderCards data flds t s) = cardMatches data flds t \<and>
         cards (renderCards data flds t s) = map (makeCard flds) (take CHUNK_SIZE toShow) \<and>
         pending (renderCards data flds t s) =
           pending s @
           (if CHUNK_SIZE < length toShow then [(toShow, CARDS_PER_PAGE, CHUNK_SIZE)] else [])"
    using small
    by (simp add: renderCards_nonempty [OF False] renderCardsPage_return
        flip: toShow_def del: length_take take_take)
  have later: "pending s = [] \<longrightarrow>
            currentPage (runIdleCallbacks (renderCards data flds t s)) = 1 \<and>
            cards (runIdleCallbacks (renderCards data flds t s)) = map (makeCard flds) toShow"
    using False by (simp add: renderCards_result toShow_def)
  from now later False show ?thesis
    unfolding toShow_def by (simp only: if_False nat_mult_1)
qed

theorem C8_render_resets_page_unless_empty_witness:
  "cardMatches data75 [''Name''] [] \<noteq> [] \<and>
   currentPage page3Session = 3 \<and>
   pending page3Session = [] \<and>
   currentPage (renderCards data75 [''Name''] [] page3Session) = 1 \<and>
   length (cards (renderCards data75 [''Name''] [] page3Session)) = 10 \<and>
   pending (renderCards data75 [''Name''] [] page3Session) = [(take 30 data75, 30, 10)] \<and>
   currentPage (runIdleCallbacks (renderCards data75 [''Name''] [] page3Session)) = 1 \<and>
   length (cards (runIdleCallbacks (renderCards data75 [''Name''] [] page3Session))) = 30"
proof -
  have m: "cardMatches data75 [''Name''] [] = data75"
    by (simp add: cardMatches_def trim_def toLowerCase_def)
  have ne: "data75 \<noteq> []" and len: "length data75 = 75"
    by (simp_all add: data75_def)
  have p: "currentPage page3Session = 3" and q: "pending page3Session = []"
    by (simp_all add: page3Session_result initialSession_def)
  from C8_render_resets_page_unless_empty [of data75 "[''Name'']" "[]" page3Session] m ne len p q
  show ?thesis
    by (simp add: CARDS_PER_PAGE_def CHUNK_SIZE_def)
qed

section \<open>Stored numbers\<close>

lemma digit_cases:
  assumes "0 \<le> d" and "d < (10::int)"
  shows "d = 0 \<or> d = 1 \<or> d = 2 \<or> d = 3 \<or> d = 4 \<or> d = 5 \<or> d = 6 \<or> d = 7 \<or> d = 8 \<or> d = 9"
  using assms by arith

lemma digitChar_props:
  assumes "0 \<le> d" and "d < 10"
  shows "isDigit (digitChar d)" and "digitValue (digitChar d) = d"
  using digit_cases [OF assms]
  by (auto simp: digitChar_def isDigit_def digitValue_def)

lemma isDigit_not_other:
  assumes "isDigit c"
  shows "\<not> isWhiteSpace c" and "c \<noteq> CHR ''-''" and "c \<noteq> CHR ''+''"
  using assms by (auto simp: isDigit_def isWhiteSpace_def)

lemma digitsValue_snoc: "digitsValue (xs @ [c]) = 10 * digitsValue xs + digitValue c"
  by (simp add: digitsValue_def)

lemma digitsOf_props:
  "0 \<le> n \<Longrightarrow> digitsOf n \<noteq> [] \<and> list_all isDigit (digitsOf n) \<and> digitsValue (digitsOf n) = n"
proof (induction n rule: digitsOf.induct)
  case (1 n)
  show ?case
  proof (cases "n < 10")
    case True
    then have "digitsOf n = [digitChar n]"
      by (subst digitsOf.simps) simp
    with True "1.prems" show ?thesis
      by (simp add: digitChar_props digitsValue_def)
  next
    case False
    then have eq: "digitsOf n = digitsOf (n div 10) @ [digitChar (n mod 10)]"
      by (subst digitsOf.simps) simp
    have "0 \<le> n div 10"
      using "1.prems" by simp
    with "1.IH" [OF False] have ih:
      "list_all isDigit (digitsOf (n div 10))" "digitsValue (digitsOf (n div 10)) = n div 10"
      by simp_all
    have m: "0 \<le> n mod 10" "n mod 10 < 10"
      by simp_all
    show ?thesis
      unfolding eq using ih digitChar_props [OF m]
      by (simp add: digitsValue_snoc)
  qed
qed

lemma takeWhile_all: "list_all P xs \<Longrightarrow> takeWhile P xs = xs"
  by (induction xs) simp_all

lemma parseInt_digits:
  assumes "xs \<noteq> []" and "list_all isDigit xs"
  shows "parseInt xs = Some (digitsValue xs)"
proof -
  from assms obtain c cs where xs: "xs = c # cs" and c: "isDigit c"
    by (cases xs) auto
  have ts: "trimStart xs = xs"
    using isDigit_not_other(1) [OF c] by (simp add: trimStart_def xs)
  have tw: "takeWhile isDigit xs = xs"
    using assms(2) by (rule takeWhile_all)
  show ?thesis
    unfolding parseInt_def ts Let_def
    using isDigit_not_other [OF c] assms(1) by (simp add: tw) (simp add: xs)
qed

lemma parseInt_minus_digits:
  assumes "xs \<noteq> []" and "list_all isDigit xs"
  shows "parseInt (CHR ''-'' # xs) = Some (- digitsValue xs)"
proof -
  have ts: "trimStart (CHR ''-'' # xs) = CHR ''-'' # xs"
    by (simp add: trimStart_def isWhiteSpace_def)
  have tw: "takeWhile isDigit xs = xs"
    using assms(2) by (rule takeWhile_all)
  show ?thesis
    unfolding parseInt_def ts Let_def
    using assms(1) by (simp add: tw)
qed

lemma parseInt_Number_toString: "parseInt (Number_toString i) = Some i"
proof (cases "i < 0")
  case True
  then have "0 \<le> - i" by simp
  from digitsOf_props [OF this] True show ?thesis
    by (simp add: Number_toString_def parseInt_minus_digits)
next
  case False
  then have "0 \<le> i" by simp
  from digitsOf_props [OF this] False show ?thesis
    by (simp add: Number_toString_def parseInt_digits)
qed

lemma Number_toString_nonempty: "Number_toString i \<noteq> []"
  using digitsOf_props [of i] by (auto simp: Number_toString_def)

lemma parseInt_Nil: "parseInt [] = None"
  by (simp add: parseInt_def trimStart_def)

lemma expiryPassed_stored: "expiryPassed (Some (Number_toString e)) now \<longleftrightarrow> now > e"
  by (simp add: expiryPassed_def Number_toString_nonempty parseInt_Number_toString)

section \<open>The JSON reader\<close>

lemma JSON_parse_Nil: "JSON_parse [] = None"
  by (simp add: JSON_parse_def skipWs_def)


lemma JSON_roundtrip_Reg: "JSON_parse (JSON_stringify [''Reg'']) = Some (JArr [JStr ''Reg''])"
  by code_simp

lemma JSON_parse_brokenConfig: "JSON_parse brokenConfig = None"
  by code_simp

lemma skipWs_length: "length (skipWs s) \<le> length s"
  by (simp add: skipWs_def length_dropWhile_le)

lemma skipWs_Cons_length: "skipWs s = c # r \<Longrightarrow> length r < length s"
  using skipWs_length [of s] by simp

lemma consChar_Some: "consChar c x = Some (t, r) \<Longrightarrow> \<exists>t'. x = Some (t', r)"
  by (auto simp: consChar_def split: option.splits)

lemma parseStringBody_shorter: "parseStringBody s = Some (t, r) \<Longrightarrow> length r < length s"
proof (induction "length s" arbitrary: s t rule: less_induct)
  case less
  have ih: "length r < length s'" if "parseStringBody s' = Some (t', r)" "length s' < length s"
    for s' t'
    using less.hyps [OF that(2) that(1)] .
  from less.prems show ?case
    by (cases s)
      (auto split: if_splits list.splits option.splits dest!: consChar_Some dest: ih)
qed

lemma parseNumber_shorter: "parseNumber s = Some (t, r) \<Longrightarrow> length r < length s"
proof -
  assume a: "parseNumber s = Some (t, r)"
  define sign where "sign = (if s \<noteq> [] \<and> hd s = CHR ''-'' then ''-'' else [])"
  define s1 where "s1 = drop (length sign) s"
  define ds where "ds = takeWhile isDigit s1"
  define s2 where "s2 = dropWhile isDigit s1"
  define hasFrac where "hasFrac = (s2 \<noteq> [] \<and> hd s2 = CHR ''.'')"
  define s3 where "s3 = (if hasFrac then dropWhile isDigit (tl s2) else s2)"
  define hasExp where "hasExp = (s3 \<noteq> [] \<and> (hd s3 = CHR ''e'' \<or> hd s3 = CHR ''E''))"
  define s4 where "s4 = (if hasExp then tl s3 else s3)"
  define esign where "esign = (if hasExp \<and> s4 \<noteq> [] \<and> (hd s4 = CHR ''+'' \<or> hd s4 = CHR ''-'')
                   then [hd s4] else [])"
  define s5 where "s5 = drop (length esign) s4"
  define s6 where "s6 = (if hasExp then dropWhile isDigit s5 else s3)"
  have "parseNumber s =
      (if ds = [] \<or> (hd ds = CHR ''0'' \<and> length ds > 1) then None
       else if hasFrac \<and> (if hasFrac then takeWhile isDigit (tl s2) else []) = [] then None
       else if hasExp \<and> (if hasExp then takeWhile isDigit s5 else []) = [] then None
       else Some (take (length s - length s6) s, s6))"
    unfolding parseNumber_def Let_def s6_def s5_def esign_def s4_def hasExp_def s3_def
      hasFrac_def s2_def ds_def s1_def sign_def
    by (rule refl)
  with a have ds: "ds \<noteq> []" and r: "r = s6"
    by (simp_all split: if_splits)
  have "length ds + length s2 = length s1"
    unfolding ds_def s2_def
    by (simp only: length_append [symmetric] takeWhile_dropWhile_id)
  with ds have l2: "length s2 < length s1" by (cases ds) auto
  have l1: "length s1 \<le> length s" by (simp add: s1_def)
  have "length (dropWhile isDigit (tl s2)) \<le> length (tl s2)"
    by (rule length_dropWhile_le)
  then have "length (dropWhile isDigit (tl s2)) \<le> length s2"
    by simp
  then have l3: "length s3 \<le> length s2"
    by (simp add: s3_def)
  have l4: "length s4 \<le> length s3" by (simp add: s4_def)
  have l5: "length s5 \<le> length s4" by (simp add: s5_def)
  have l6: "length s6 \<le> length s3"
    using length_dropWhile_le [of isDigit s5] l5 l4 by (simp add: s6_def)
  from l1 l2 l3 l6 show ?thesis by (simp add: r)
qed



lemma parseValue_Suc_cases:
  assumes "parseValue (Suc n) s = Some (v, r)"
  obtains (str) c r0 t where "skipWs s = c # r0" "parseStringBody r0 = Some (t, r)"
  | (emptyArr) c r0 where "skipWs s = c # r0" "skipWs r0 \<noteq> []" "r = tl (skipWs r0)"
  | (arr) c r0 vs where "skipWs s = c # r0" "parseElements n r0 = Some (vs, r)"
  | (obj) c r0 ms where "skipWs s = c # r0" "parseMembers n r0 = Some (ms, r)"
  | (lit) k where "skipWs s \<noteq> []" "r = drop (Suc k) (skipWs s)"
  | (num) t where "parseNumber (skipWs s) = Some (t, r)"
proof (cases "skipWs s")
  case Nil
  with assms show ?thesis by simp
next
  case (Cons c r0)
  from assms Cons have eq:
    "(if c = CHR 0x22 then
            (case parseStringBody r0 of None \<Rightarrow> None | Some (t, r') \<Rightarrow> Some (JStr t, r'))
          else if c = CHR ''['' then
            (if skipWs r0 \<noteq> [] \<and> hd (skipWs r0) = CHR '']'' then Some (JArr [], tl (skipWs r0))
             else (case parseElements n r0 of
                     None \<Rightarrow> None
                   | Some (vs, r') \<Rightarrow> Some (JArr vs, r')))
          else if c = CHR ''{'' then
            (if skipWs r0 \<noteq> [] \<and> hd (skipWs r0) = CHR ''}'' then Some (JObj [], tl (skipWs r0))
             else (case parseMembers n r0 of
                     None \<Rightarrow> None
                   | Some (ms, r') \<Rightarrow> Some (JObj ms, r')))
          else if prefix ''true'' (c # r0) then Some (JBool True, drop 4 (c # r0))
          else if prefix ''false'' (c # r0) then Some (JBool False, drop 5 (c # r0))
          else if prefix ''null'' (c # r0) then Some (JNull, drop 4 (c # r0))
          else (case parseNumber (c # r0) of
                  None \<Rightarrow> None
                | Some (t, r') \<Rightarrow> Some (JNum t, r'))) = Some (v, r)"
    by simp
  show ?thesis
  proof (cases "c = CHR 0x22")
    case True
    with eq obtain t where "parseStringBody r0 = Some (t, r)"
      by (auto split: option.splits)
    with Cons show ?thesis by (rule str)
  next
    case nq: False
    show ?thesis
    proof (cases "c = CHR ''[''")
      case True
      with eq nq consider "skipWs r0 \<noteq> []" "r = tl (skipWs r0)"
        | vs where "parseElements n r0 = Some (vs, r)"
        by (auto split: if_splits option.splits)
      then show ?thesis
        using Cons by cases (auto intro: emptyArr arr)
    next
      case na: False
      show ?thesis
      proof (cases "c = CHR ''{''")
        case True
        with eq nq na consider "skipWs r0 \<noteq> []" "r = tl (skipWs r0)"
          | ms where "parseMembers n r0 = Some (ms, r)"
          by (auto split: if_splits option.splits)
        then show ?thesis
          using Cons by cases (auto intro: emptyArr obj)
      next
        case no: False
        from eq nq na no consider "r = drop 4 (c # r0)" | "r = drop 5 (c # r0)"
          | t where "parseNumber (c # r0) = Some (t, r)"
          by (auto split: if_splits option.splits)
        then show ?thesis
        proof cases
          case 1
          then show ?thesis using Cons lit [of 3] by simp
        next
          case 2
          then show ?thesis using Cons lit [of 4] by simp
        next
          case 3
          then show ?thesis using Cons num by simp
        qed
      qed
    qed
  qed
qed


lemma parseElements_Suc_cases:
  assumes "parseElements (Suc n) s = Some (vs, r)"
  obtains (last) v r1 c where "parseValue n s = Some (v, r1)" "skipWs r1 = c # r" "vs = [v]"
  | (more) v r1 c r' vs' where "parseValue n s = Some (v, r1)" "skipWs r1 = c # r'"
      "parseElements n r' = Some (vs', r)" "vs = v # vs'"
proof -
  from assms obtain v r1 where pv: "parseValue n s = Some (v, r1)"
    by (auto split: option.splits)
  with assms obtain c r' where sk: "skipWs r1 = c # r'"
    by (cases "skipWs r1") auto
  from assms pv sk consider "r = r'" "vs = [v]"
    | vs' where "parseElements n r' = Some (vs', r)" "vs = v # vs'"
    by (auto split: if_splits option.splits)
  then show ?thesis
    using pv sk by cases (auto intro: last more)
qed

lemma parseMembers_Suc_cases:
  assumes "parseMembers (Suc n) s = Some (ms, r)"
  obtains (last) q r0 k r1 col r2 v r3 c where
      "skipWs s = q # r0" "parseStringBody r0 = Some (k, r1)" "skipWs r1 = col # r2"
      "parseValue n r2 = Some (v, r3)" "skipWs r3 = c # r" "ms = [(k, v)]"
  | (more) q r0 k r1 col r2 v r3 c r4 ms' where
      "skipWs s = q # r0" "parseStringBody r0 = Some (k, r1)" "skipWs r1 = col # r2"
      "parseValue n r2 = Some (v, r3)" "skipWs r3 = c # r4"
      "parseMembers n r4 = Some (ms', r)" "ms = (k, v) # ms'"
proof -
  from assms obtain q r0 where s0: "skipWs s = q # r0"
    by (cases "skipWs s") auto
  with assms have q: "q = CHR 0x22"
    by (auto split: if_splits)
  from assms s0 q obtain k r1 where ps: "parseStringBody r0 = Some (k, r1)"
    by (auto split: option.splits)
  from assms s0 q ps obtain col r2 where s1: "skipWs r1 = col # r2"
    by (cases "skipWs r1") auto
  with assms s0 q ps have col: "col = CHR '':''"
    by (auto split: if_splits)
  from assms s0 q ps s1 col obtain v r3 where pv: "parseValue n r2 = Some (v, r3)"
    by (auto split: option.splits)
  from assms s0 q ps s1 col pv obtain c r4 where s3: "skipWs r3 = c # r4"
    by (cases "skipWs r3") auto
  from assms s0 q ps s1 col pv s3 consider "r = r4" "ms = [(k, v)]"
    | ms' where "parseMembers n r4 = Some (ms', r)" "ms = (k, v) # ms'"
    by (auto split: if_splits option.splits)
  then show ?thesis
    using s0 ps s1 pv s3 by cases (auto intro: last more)
qed

lemma parse_shorter:
  "(\<forall>s v r. parseValue n s = Some (v, r) \<longrightarrow> length r < length s) \<and>
   (\<forall>s vs r. parseElements n s = Some (vs, r) \<longrightarrow> length r < length s) \<and>
   (\<forall>s ms r. parseMembers n s = Some (ms, r) \<longrightarrow> length r < length s)"
proof (induction n)
  case 0
  show ?case by simp
next
  case (Suc n)
  then have ihv: "\<And>s v r. parseValue n s = Some (v, r) \<Longrightarrow> length r < length s"
    and ihe: "\<And>s vs r. parseElements n s = Some (vs, r) \<Longrightarrow> length r < length s"
    and ihm: "\<And>s ms r. parseMembers n s = Some (ms, r) \<Longrightarrow> length r < length s"
    by blast+
  have v: "length r < length s" if "parseValue (Suc n) s = Some (v, r)" for s v r
    using that
  proof (cases rule: parseValue_Suc_cases)
    case (str c r0 t)
    with skipWs_Cons_length [OF str(1)] parseStringBody_shorter [OF str(2)] show ?thesis
      by simp
  next
    case (emptyArr c r0)
    with skipWs_Cons_length [OF emptyArr(1)] skipWs_length [of r0] show ?thesis
      by (cases "skipWs r0") auto
  next
    case (arr c r0 vs)
    with skipWs_Cons_length [OF arr(1)] ihe [OF arr(2)] show ?thesis
      by simp
  next
    case (obj c r0 ms)
    with skipWs_Cons_length [OF obj(1)] ihm [OF obj(2)] show ?thesis
      by simp
  next
    case (lit k)
    with skipWs_length [of s] show ?thesis
      by (cases "skipWs s") auto
  next
    case (num t)
    with skipWs_length [of s] parseNumber_shorter [OF num] show ?thesis
      by simp
  qed
  have e: "length r < length s" if "parseElements (Suc n) s = Some (vs, r)" for s vs r
    using that
  proof (cases rule: parseElements_Suc_cases)
    case (last v r1 c)
    with ihv [OF last(1)] skipWs_Cons_length [OF last(2)] show ?thesis
      by simp
  next
    case (more v r1 c r' vs')
    with ihv [OF more(1)] skipWs_Cons_length [OF more(2)] ihe [OF more(3)] show ?thesis
      by simp
  qed
  have m: "length r < length s" if "parseMembers (Suc n) s = Some (ms, r)" for s ms r
    using that
  proof (cases rule: parseMembers_Suc_cases)
    case (last q r0 k r1 col r2 v r3 c)
    with skipWs_Cons_length [OF last(1)] parseStringBody_shorter [OF last(2)]
      skipWs_Cons_length [OF last(3)] ihv [OF last(4)] skipWs_Cons_length [OF last(5)]
    show ?thesis by simp
  next
    case (more q r0 k r1 col r2 v r3 c r4 ms')
    with skipWs_Cons_length [OF more(1)] parseStringBody_shorter [OF more(2)]
      skipWs_Cons_length [OF more(3)] ihv [OF more(4)] skipWs_Cons_length [OF more(5)]
      ihm [OF more(6)]
    show ?thesis by simp
  qed
  from v e m show ?case by blast
qed


lemma parseValue_shorter: "parseValue n s = Some (v, r) \<Longrightarrow> length r < length s"
  using parse_shorter [of n] by blast

declare parseValue.simps [simp del] parseElements.simps [simp del] parseMembers.simps [simp del]

lemma fuel_stable:
  "(\<forall>s. 2 * length s + 1 \<le> n \<longrightarrow> parseValue (Suc n) s = parseValue n s) \<and>
   (\<forall>s. 2 * length s + 2 \<le> n \<longrightarrow> parseElements (Suc n) s = parseElements n s) \<and>
   (\<forall>s. 2 * length s + 2 \<le> n \<longrightarrow> parseMembers (Suc n) s = parseMembers n s)"
proof (induction n)
  case 0
  show ?case by simp
next
  case (Suc n)
  then have ihv: "\<And>s. 2 * length s + 1 \<le> n \<Longrightarrow> parseValue (Suc n) s = parseValue n s"
    and ihe: "\<And>s. 2 * length s + 2 \<le> n \<Longrightarrow> parseElements (Suc n) s = parseElements n s"
    and ihm: "\<And>s. 2 * length s + 2 \<le> n \<Longrightarrow> parseMembers (Suc n) s = parseMembers n s"
    by blast+
  have v: "parseValue (Suc (Suc n)) s = parseValue (Suc n) s" if b: "2 * length s + 1 \<le> Suc n"
    for s
  proof (cases "skipWs s")
    case Nil
    then show ?thesis
      by (simp add: parseValue.simps(2))
  next
    case (Cons c r0)
    from skipWs_Cons_length [OF Cons] b have "2 * length r0 + 2 \<le> n"
      by simp
    then have "parseElements (Suc n) r0 = parseElements n r0"
      and "parseMembers (Suc n) r0 = parseMembers n r0"
      by (rule ihe, rule ihm)
    then show ?thesis
      by (simp add: parseValue.simps(2) [of "Suc n"] parseValue.simps(2) [of n] Cons)
  qed
  have e: "parseElements (Suc (Suc n)) s = parseElements (Suc n) s"
    if b: "2 * length s + 2 \<le> Suc n" for s
  proof -
    from b have pv: "parseValue (Suc n) s = parseValue n s"
      by (intro ihv) simp
    note unf = parseElements.simps(2) [of "Suc n"] parseElements.simps(2) [of n]
    show ?thesis
    proof (cases "parseValue n s")
      case None
      then show ?thesis by (simp add: unf pv)
    next
      case (Some a)
      obtain w r1 where a: "a = (w, r1)" by (cases a)
      show ?thesis
      proof (cases "skipWs r1")
        case Nil
        then show ?thesis by (simp add: unf pv Some a)
      next
        case (Cons c r')
        from parseValue_shorter [OF Some [unfolded a]] skipWs_Cons_length [OF Cons] b
        have "2 * length r' + 2 \<le> n"
          by simp
        then have "parseElements (Suc n) r' = parseElements n r'"
          by (rule ihe)
        then show ?thesis
          by (simp add: unf pv Some a Cons)
      qed
    qed
  qed
  have m: "parseMembers (Suc (Suc n)) s = parseMembers (Suc n) s"
    if b: "2 * length s + 2 \<le> Suc n" for s
  proof (cases "skipWs s")
    case Nil
    then show ?thesis by (simp add: parseMembers.simps(2))
  next
    case s0: (Cons q r0)
    note unf = parseMembers.simps(2) [of "Suc n"] parseMembers.simps(2) [of n]
    show ?thesis
    proof (cases "parseStringBody r0")
      case None
      then show ?thesis by (simp add: unf s0)
    next
      case (Some a)
      obtain k r1 where a: "a = (k, r1)" by (cases a)
      note l1 = parseStringBody_shorter [OF Some [unfolded a]]
      show ?thesis
      proof (cases "skipWs r1")
        case Nil
        then show ?thesis by (simp add: unf s0 Some a)
      next
        case s1: (Cons col r2)
        from skipWs_Cons_length [OF s0] l1 skipWs_Cons_length [OF s1] b
        have b2: "2 * length r2 + 1 \<le> n"
          by simp
        then have pv: "parseValue (Suc n) r2 = parseValue n r2"
          by (rule ihv)
        show ?thesis
        proof (cases "parseValue n r2")
          case None
          then show ?thesis by (simp add: unf s0 Some a s1 pv)
        next
          case sv: (Some a')
          obtain w r3 where a': "a' = (w, r3)" by (cases a')
          show ?thesis
          proof (cases "skipWs r3")
            case Nil
            then show ?thesis by (simp add: unf s0 Some a s1 pv sv a')
          next
            case s3: (Cons c r4)
            from parseValue_shorter [OF sv [unfolded a']] skipWs_Cons_length [OF s3] b2
            have "2 * length r4 + 2 \<le> n"
              by simp
            then have "parseMembers (Suc n) r4 = parseMembers n r4"
              by (rule ihm)
            then show ?thesis
              by (simp add: unf s0 Some a s1 pv sv a' s3)
          qed
        qed
      qed
    qed
  qed
  from v e m show ?case by blast
qed

lemma parseValue_more_fuel:
  "2 * length s + 1 \<le> n \<Longrightarrow> parseValue (n + k) s = parseValue n s"
proof (induction k)
  case 0
  show ?case by simp
next
  case (Suc k)
  have "parseValue (Suc (n + k)) s = parseValue (n + k) s"
    using fuel_stable [of "n + k"] Suc.prems by simp
  with Suc show ?case by simp
qed

text \<open>
  The bound on the depth is never the reason for a refusal: with any greater bound the
  outcome is the same.
\<close>

lemma JSON_parse_any_fuel:
  "JSON_parse src =
     (case parseValue (2 * length src + 2 + k) src of
        None \<Rightarrow> None
      | Some (v, r) \<Rightarrow> if skipWs r = [] then Some v else None)"
proof -
  have "parseValue (2 * length src + 2 + k) src = parseValue (2 * length src + 2) src"
    by (rule parseValue_more_fuel) simp
  then show ?thesis
    unfolding JSON_parse_def by (simp only:)
qed

section \<open>The durable store\<close>

lemma keys_distinct: "CONFIG_KEY \<noteq> EXPIRY_KEY" "EXPIRY_KEY \<noteq> CONFIG_KEY"
  by (simp_all add: CONFIG_KEY_def EXPIRY_KEY_def)

lemma checkExpiry_result:
  "checkExpiry m now =
     (if expiryPassed (ls m EXPIRY_KEY) now
      then if idbOk m
           then (Inr True, m\<lparr>idb := None, ls := (ls m)(CONFIG_KEY := None, EXPIRY_KEY := None)\<rparr>)
           else (Inl IDBError, m)
      else (Inr False, m))"
  by (simp add: checkExpiry_def getItem_def clearExcelDB_def removeItem_def Let_def)

lemma saveToStorage_result:
  "saveToStorage m now data flds =
     (if \<not> idbOk m then (Inl IDBError, m)
      else if \<not> lsAccepts m CONFIG_KEY (JSON_stringify flds)
      then (Inl QuotaExceededError, m\<lparr>idb := Some data\<rparr>)
      else if \<not> lsAccepts m EXPIRY_KEY (Number_toString (now + 2592000000))
      then (Inl QuotaExceededError,
            m\<lparr>idb := Some data, ls := (ls m)(CONFIG_KEY \<mapsto> JSON_stringify flds)\<rparr>)
      else (Inr (),
            m\<lparr>idb := Some data,
              ls := (ls m)(CONFIG_KEY \<mapsto> JSON_stringify flds,
                           EXPIRY_KEY \<mapsto> Number_toString (now + 2592000000))\<rparr>))"
  by (simp add: saveToStorage_def saveExcelToDB_def setItem_def setExpiry_def EXPIRY_DAYS_def Let_def)

lemma loadFromStorage_result:
  "loadFromStorage m now =
     (if expiryPassed (ls m EXPIRY_KEY) now
      then if idbOk m
           then (Inr None, m\<lparr>idb := None, ls := (ls m)(CONFIG_KEY := None, EXPIRY_KEY := None)\<rparr>)
           else (Inl IDBError, m)
      else if \<not> idbOk m then (Inl IDBError, m)
      else (case (idb m, ls m CONFIG_KEY) of
              (Some d, Some c) \<Rightarrow>
                if c \<noteq> [] then
                  (case JSON_parse c of
                     Some j \<Rightarrow> (Inr (Some (d, j)), m)
                   | None \<Rightarrow> (Inr None, m))
                else (Inr None, m)
            | _ \<Rightarrow> (Inr None, m)))"
  by (simp add: loadFromStorage_def checkExpiry_result loadExcelFromDB_def getItem_def Let_def
      split: option.splits)

section \<open>Expiry\<close>

text \<open>
  Claim C2. The expiry test is true exactly when the current time is strictly greater
  than the stored timestamp. A successful save at time \<open>t\<close> stores \<open>t\<close> plus 30 days
  (2592000000 ms), once; against that entry one millisecond past it is expired, the
  timestamp itself and one millisecond before are not. A load never writes the entry: it
  leaves it as it was or removes it.
\<close>

theorem C2_expiry_after_thirty_days:
  assumes "saveToStorage m t data flds = (Inr (), m')"
  shows "EXPIRY_DAYS * 24 * 60 * 60 * 1000 = 2592000000 \<and>
         (expiryPassed (Some (Number_toString e)) now \<longleftrightarrow> now > e) \<and>
         getItem m' EXPIRY_KEY = Some (Number_toString (t + 2592000000)) \<and>
         (expiryPassed (getItem m' EXPIRY_KEY) now \<longleftrightarrow> now > t + 2592000000) \<and>
         expiryPassed (getItem m' EXPIRY_KEY) (t + 2592000000 + 1) \<and>
         \<not> expiryPassed (getItem m' EXPIRY_KEY) (t + 2592000000) \<and>
         \<not> expiryPassed (getItem m' EXPIRY_KEY) (t + 2592000000 - 1) \<and>
         fst (checkExpiry m' now) = Inr (now > t + 2592000000) \<and>
         (getItem (snd (loadFromStorage m0 now)) EXPIRY_KEY = getItem m0 EXPIRY_KEY \<or>
          getItem (snd (loadFromStorage m0 now)) EXPIRY_KEY = None)"
proof -
  from assms have ok: "idbOk m" and
    m': "m' = m\<lparr>idb := Some data,
              ls := (ls m)(CONFIG_KEY \<mapsto> JSON_stringify flds,
                           EXPIRY_KEY \<mapsto> Number_toString (t + 2592000000))\<rparr>"
    by (simp_all add: saveToStorage_result split: if_splits)
  have stored: "getItem m' EXPIRY_KEY = Some (Number_toString (t + 2592000000))"
    by (simp add: m' getItem_def)
  have chk: "fst (checkExpiry m' now) = Inr (now > t + 2592000000)"
    using ok by (simp add: checkExpiry_result stored [unfolded getItem_def] expiryPassed_stored m')
  have load: "getItem (snd (loadFromStorage m0 now)) EXPIRY_KEY = getItem m0 EXPIRY_KEY \<or>
          getItem (snd (loadFromStorage m0 now)) EXPIRY_KEY = None"
    by (simp add: loadFromStorage_result getItem_def split: option.splits)
  show ?thesis
    unfolding stored expiryPassed_stored using chk load by (simp add: EXPIRY_DAYS_def)
qed


theorem C2_expiry_after_thirty_days_witness:
  "saveToStorage emptyMedium 1000 scenarioData [''Reg''] =
     (Inr (),
      emptyMedium\<lparr>idb := Some scenarioData,
        ls := [CONFIG_KEY \<mapsto> JSON_stringify [''Reg''],
               EXPIRY_KEY \<mapsto> Number_toString 2592001000]\<rparr>) \<and>
   getItem
     (emptyMedium\<lparr>idb := Some scenarioData,
        ls := [CONFIG_KEY \<mapsto> JSON_stringify [''Reg''],
               EXPIRY_KEY \<mapsto> Number_toString 2592001000]\<rparr>)
     EXPIRY_KEY = Some (Number_toString (1000 + 2592000000)) \<and>
   expiryPassed
     (getItem
        (emptyMedium\<lparr>idb := Some scenarioData,
           ls := [CONFIG_KEY \<mapsto> JSON_stringify [''Reg''],
                  EXPIRY_KEY \<mapsto> Number_toString 2592001000]\<rparr>)
        EXPIRY_KEY)
     (1000 + 2592000000 + 1) \<and>
   \<not> expiryPassed
     (getItem
        (emptyMedium\<lparr>idb := Some scenarioData,
           ls := [CONFIG_KEY \<mapsto> JSON_stringify [''Reg''],
                  EXPIRY_KEY \<mapsto> Number_toString 2592001000]\<rparr>)
        EXPIRY_KEY)
     (1000 + 2592000000 - 1)"
proof -
  have h: "saveToStorage emptyMedium 1000 scenarioData [''Reg''] =
     (Inr (),
      emptyMedium\<lparr>idb := Some scenarioData,
        ls := [CONFIG_KEY \<mapsto> JSON_stringify [''Reg''],
               EXPIRY_KEY \<mapsto> Number_toString 2592001000]\<rparr>)"
    by (simp add: saveToStorage_result emptyMedium_def)
  from C2_expiry_after_thirty_days [OF h] h show ?thesis
    by blast
qed

text \<open>
  Claim C3. When the stored expiry timestamp lies in the past, \<open>loadFromStorage\<close> never
  returns the stored record. When IndexedDB serves the delete, it returns \<open>null\<close>, and
  afterwards the bulk entry, the stored selection and the stored timestamp are all gone.
  (When IndexedDB fails, the promise of \<open>clearExcelDB\<close> rejects and the load throws.)
\<close>

theorem C3_expired_record_is_purged:
  assumes "getItem m EXPIRY_KEY = Some e"
    and "parseInt e = Some t"
    and "t < now"
  shows "fst (loadFromStorage m now) \<noteq> Inr (Some x) \<and>
         (idbOk m \<longrightarrow>
            fst (loadFromStorage m now) = Inr None \<and>
            idb (snd (loadFromStorage m now)) = None \<and>
            getItem (snd (loadFromStorage m now)) CONFIG_KEY = None \<and>
            getItem (snd (loadFromStorage m now)) EXPIRY_KEY = None)"
proof -
  from assms(2) have "e \<noteq> []"
    by (auto simp: parseInt_Nil)
  with assms have "expiryPassed (ls m EXPIRY_KEY) now"
    by (simp add: expiryPassed_def getItem_def)
  then show ?thesis
    by (simp add: loadFromStorage_result getItem_def)
qed

theorem C3_expired_record_is_purged_witness:
  "idbOk savedMedium \<and>
   getItem savedMedium EXPIRY_KEY = Some (Number_toString 2592000000) \<and>
   parseInt (Number_toString 2592000000) = Some 2592000000 \<and>
   (2592000000 :: int) < 2592000001 \<and>
   fst (loadFromStorage savedMedium 2592000001) = Inr None \<and>
   idb (snd (loadFromStorage savedMedium 2592000001)) = None \<and>
   getItem (snd (loadFromStorage savedMedium 2592000001)) CONFIG_KEY = None \<and>
   getItem (snd (loadFromStorage savedMedium 2592000001)) EXPIRY_KEY = None"
proof -
  have a: "idbOk savedMedium"
    by (simp add: savedMedium_def)
  have b: "getItem savedMedium EXPIRY_KEY = Some (Number_toString 2592000000)"
    by (simp add: savedMedium_def getItem_def)
  have c: "parseInt (Number_toString 2592000000) = Some 2592000000"
    by (rule parseInt_Number_toString)
  have d: "(2592000000 :: int) < 2592000001"
    by simp
  from C3_expired_record_is_purged [OF b c d] a b c d show ?thesis
    by blast
qed

text \<open>
  Claim C10. When the expiry entry is absent, or holds a text that \<open>parseInt\<close> reads
  as \<open>NaN\<close>, \<open>checkExpiry\<close> reports "not expired" at every time and changes nothing,
  a load purges nothing, and a stored dataset with a stored selection is returned as
  usual.
\<close>

theorem C10_no_valid_expiry_never_expires:
  assumes "getItem m EXPIRY_KEY = None \<or>
           (\<exists>e. getItem m EXPIRY_KEY = Some e \<and> parseInt e = None)"
  shows "checkExpiry m now = (Inr False, m) \<and>
         snd (loadFromStorage m now) = m \<and>
         (idbOk m \<and> idb m = Some d \<and> getItem m CONFIG_KEY = Some c \<and> JSON_parse c = Some j \<longrightarrow>
            loadFromStorage m now = (Inr (Some (d, j)), m))"
proof -
  from assms have ne: "\<not> expiryPassed (ls m EXPIRY_KEY) now"
    by (auto simp: expiryPassed_def getItem_def)
  have c: "c \<noteq> []" if "JSON_parse c = Some j"
    using that by (auto simp: JSON_parse_Nil)
  show ?thesis
    using ne c
    by (auto simp: checkExpiry_result loadFromStorage_result getItem_def split: option.splits)
qed

theorem C10_no_valid_expiry_never_expires_witness:
  "getItem noExpiryMedium EXPIRY_KEY = Some ''soon'' \<and> parseInt ''soon'' = None \<and>
   checkExpiry noExpiryMedium 99999999999999 = (Inr False, noExpiryMedium) \<and>
   loadFromStorage noExpiryMedium 99999999999999 =
     (Inr (Some (scenarioData, JArr [JStr ''Reg''])), noExpiryMedium)"
proof -
  have g: "getItem noExpiryMedium EXPIRY_KEY = Some ''soon''"
    by (simp add: noExpiryMedium_def getItem_def)
  have p: "parseInt ''soon'' = None"
    by (simp add: parseInt_def trimStart_def isWhiteSpace_def isDigit_def)
  have h: "getItem noExpiryMedium EXPIRY_KEY = None \<or>
           (\<exists>e. getItem noExpiryMedium EXPIRY_KEY = Some e \<and> parseInt e = None)"
    using g p by simp
  have o: "idbOk noExpiryMedium" "idb noExpiryMedium = Some scenarioData"
    "getItem noExpiryMedium CONFIG_KEY = Some (JSON_stringify [''Reg''])"
    by (simp_all add: noExpiryMedium_def getItem_def keys_distinct)
  from C10_no_valid_expiry_never_expires [OF h, of 99999999999999 scenarioData
      "JSON_stringify [''Reg'']" "JArr [JStr ''Reg'']"]
    g p o JSON_roundtrip_Reg
  show ?thesis
    by simp
qed

section \<open>Saving and loading\<close>

text \<open>
  A save stops at the first write the medium rejects and takes nothing back. When the
  timestamp is the write that is rejected, the store is left with the new dataset and
  the new selection under the old timestamp.
\<close>

lemma rejected_timestamp_write_keeps_new_selection:
  "saveToStorage nearlyFullMedium 1000 cityData [''City''] =
     (Inl QuotaExceededError,
      nearlyFullMedium\<lparr>idb := Some cityData,
        ls := (ls nearlyFullMedium)(CONFIG_KEY \<mapsto> JSON_stringify [''City''])\<rparr>) \<and>
   idb (snd (saveToStorage nearlyFullMedium 1000 cityData [''City''])) = Some cityData \<and>
   getItem (snd (saveToStorage nearlyFullMedium 1000 cityData [''City''])) CONFIG_KEY =
     Some (JSON_stringify [''City'']) \<and>
   getItem (snd (saveToStorage nearlyFullMedium 1000 cityData [''City''])) EXPIRY_KEY =
     Some (Number_toString 2592000000)"
  by (simp add: nearlyFullMedium_def savedMedium_def saveToStorage_result getItem_def
      keys_distinct)

text \<open>
  Claim C4 says that a save the medium rejects leaves the previously persisted state
  uncorrupted. The store holds \<open>scenarioData\<close> with the selection \<open>Reg\<close>;
  \<open>localStorage\<close> refuses writes. Saving \<open>cityData\<close> with the selection \<open>City\<close>
  fails with the storage error, but the bulk write has gone through: the store now holds
  the new dataset under the old selection and the old timestamp, and the next load
  returns that pair.
\<close>

theorem C4_rejected_metadata_write_keeps_new_dataset:
  "idb fullMedium = Some scenarioData \<and>
   saveToStorage fullMedium 1000 cityData [''City''] =
     (Inl QuotaExceededError, fullMedium\<lparr>idb := Some cityData\<rparr>) \<and>
   getItem (fullMedium\<lparr>idb := Some cityData\<rparr>) CONFIG_KEY = Some (JSON_stringify [''Reg'']) \<and>
   loadFromStorage (fullMedium\<lparr>idb := Some cityData\<rparr>) 2000 =
     (Inr (Some (cityData, JArr [JStr ''Reg''])), fullMedium\<lparr>idb := Some cityData\<rparr>)"
proof -
  have e: "\<not> expiryPassed (Some (Number_toString 2592000000)) 2000"
    by (simp add: expiryPassed_stored)
  have ne: "JSON_stringify [''Reg''] \<noteq> []"
    by (simp add: JSON_stringify_def)
  show ?thesis
    using e ne
    by (simp add: fullMedium_def savedMedium_def saveToStorage_result loadFromStorage_result
        getItem_def keys_distinct JSON_roundtrip_Reg)
qed

text \<open>
  Claim C4, amended. \<open>saveToStorage\<close> makes three writes in order: the dataset to
  the bulk tier, then the selection, then the timestamp of the save time plus 30 days to
  the metadata tier. It stops at the first write the medium rejects and fails with that
  error; what it has written before is not rolled back. When the medium takes all three
  writes, the dataset, the selection and the new timestamp are stored. When the bulk
  write is rejected, both tiers are as they were. When the selection write is rejected,
  the bulk tier holds the new dataset and the metadata tier is as it was. When the
  timestamp write is rejected, the bulk tier holds the new dataset and the metadata tier
  holds the new selection under the old timestamp. In every case the metadata tier has
  changed only if the bulk tier holds the new dataset.
\<close>

theorem C4_save_is_tiered:
  "saveToStorage m now data flds =
     (if \<not> idbOk m then (Inl IDBError, m)
      else if \<not> lsAccepts m CONFIG_KEY (JSON_stringify flds)
      then (Inl QuotaExceededError, m\<lparr>idb := Some data\<rparr>)
      else if \<not> lsAccepts m EXPIRY_KEY (Number_toString (now + 30 * 24 * 60 * 60 * 1000))
      then (Inl QuotaExceededError,
            m\<lparr>idb := Some data, ls := (ls m)(CONFIG_KEY \<mapsto> JSON_stringify flds)\<rparr>)
      else (Inr (),
            m\<lparr>idb := Some data,
              ls := (ls m)(CONFIG_KEY \<mapsto> JSON_stringify flds,
                           EXPIRY_KEY \<mapsto> Number_toString (now + 30 * 24 * 60 * 60 * 1000))\<rparr>)) \<and>
   (ls (snd (saveToStorage m now data flds)) = ls m \<or>
    idb (snd (saveToStorage m now data flds)) = Some data)"
  by (simp add: saveToStorage_result)

text \<open>
  Claim C6 says that a load which finds an undecodable selection purges the stored
  tiers. With the stored selection cut off in the middle, \<open>JSON.parse\<close> throws, the
  load returns \<open>null\<close>, and the store is what it was: the dataset, the broken selection
  and the timestamp are all still there.
\<close>

theorem C6_malformed_selection_is_not_purged:
  "JSON_parse brokenConfig = None \<and>
   loadFromStorage brokenMedium 1000 = (Inr None, brokenMedium) \<and>
   idb brokenMedium = Some scenarioData \<and>
   getItem brokenMedium CONFIG_KEY = Some brokenConfig \<and>
   getItem brokenMedium EXPIRY_KEY = Some (Number_toString 2592000000)"
proof -
  have e: "\<not> expiryPassed (Some (Number_toString 2592000000)) 1000"
    by (simp add: expiryPassed_stored)
  have ne: "brokenConfig \<noteq> []"
    by (simp add: brokenConfig_def)
  show ?thesis
    using e ne
    by (simp add: brokenMedium_def loadFromStorage_result getItem_def keys_distinct
        JSON_parse_brokenConfig)
qed

text \<open>
  Claim C6, amended. When the stored selection is not valid JSON and IndexedDB serves
  its requests, \<open>loadFromStorage\<close> returns \<open>null\<close> and throws nothing, so the session
  starts fresh; the malformed state is not purged. The store is left as it was, unless
  the expiry timestamp has passed, in which case the expiry purge empties it.
\<close>

theorem C6_malformed_selection_loads_as_absent:
  assumes "idbOk m"
    and "getItem m CONFIG_KEY = Some c"
    and "JSON_parse c = None"
  shows "loadFromStorage m now =
           (Inr None,
            if expiryPassed (getItem m EXPIRY_KEY) now
            then m\<lparr>idb := None, ls := (ls m)(CONFIG_KEY := None, EXPIRY_KEY := None)\<rparr>
            else m)"
  using assms
  by (simp add: loadFromStorage_result getItem_def split: option.splits)

theorem C6_malformed_selection_loads_as_absent_witness:
  "idbOk brokenMedium \<and>
   getItem brokenMedium CONFIG_KEY = Some brokenConfig \<and>
   JSON_parse brokenConfig = None \<and>
   \<not> expiryPassed (getItem brokenMedium EXPIRY_KEY) 5000 \<and>
   loadFromStorage brokenMedium 5000 = (Inr None, brokenMedium)"
proof -
  have a: "idbOk brokenMedium"
    by (simp add: brokenMedium_def)
  have b: "getItem brokenMedium CONFIG_KEY = Some brokenConfig"
    by (simp add: brokenMedium_def getItem_def keys_distinct)
  have e: "\<not> expiryPassed (getItem brokenMedium EXPIRY_KEY) 5000"
    by (simp add: brokenMedium_def getItem_def expiryPassed_stored)
  from C6_malformed_selection_loads_as_absent [OF a b JSON_parse_brokenConfig, of 5000]
    a b e JSON_parse_brokenConfig
  show ?thesis
    by simp
qed

section \<open>Confirming the column selection\<close>

text \<open>
  Claim C5. Confirming with no box ticked only alerts that a field must be selected: the
  store, the selected fields and the visibility of the column and search sections are
  unchanged, and nothing is saved. Confirming a non-empty selection makes it the selected
  fields and runs \<open>saveToStorage\<close> with the dataset and the selection; when the save
  succeeds the column section is hidden, the search section shown and the cards rendered;
  when it fails the error is alerted and the page stays as it is.
\<close>

theorem C5_confirm_selection:
  "saveColumnsBtn_onclick [] now (s, m) = (alert ''Please select at least one field.'' s, m) \<and>
   selectedFields (fst (saveColumnsBtn_onclick [] now (s, m))) = selectedFields s \<and>
   columnSectionShown (fst (saveColumnsBtn_onclick [] now (s, m))) = columnSectionShown s \<and>
   searchSectionShown (fst (saveColumnsBtn_onclick [] now (s, m))) = searchSectionShown s \<and>
   (checked \<noteq> [] \<longrightarrow>
      snd (saveColumnsBtn_onclick checked now (s, m)) =
        snd (saveToStorage m now (excelData s) checked) \<and>
      selectedFields (fst (saveColumnsBtn_onclick checked now (s, m))) = checked) \<and>
   (checked \<noteq> [] \<and> fst (saveToStorage m now (excelData s) checked) = Inr () \<longrightarrow>
      \<not> columnSectionShown (fst (saveColumnsBtn_onclick checked now (s, m))) \<and>
      searchSectionShown (fst (saveColumnsBtn_onclick checked now (s, m))) \<and>
      fst (saveColumnsBtn_onclick checked now (s, m)) =
        renderCards (excelData s) checked []
          (s\<lparr>selectedFields := checked, columnSectionShown := False,
              searchSectionShown := True\<rparr>)) \<and>
   (checked \<noteq> [] \<and> fst (saveToStorage m now (excelData s) checked) = Inl err \<longrightarrow>
      fst (saveColumnsBtn_onclick checked now (s, m)) =
        alert (''Failed to save data: '' @ errorMessage err) (s\<lparr>selectedFields := checked\<rparr>))"
proof -
  have empty: "saveColumnsBtn_onclick [] now (s, m) = (alert ''Please select at least one field.'' s, m)"
    by (simp add: saveColumnsBtn_onclick_def)
  have rest: "checked \<noteq> [] \<Longrightarrow>
      saveColumnsBtn_onclick checked now (s, m) =
        (case saveToStorage m now (excelData s) checked of
           (Inl err, m1) \<Rightarrow>
             (alert (''Failed to save data: '' @ errorMessage err) (s\<lparr>selectedFields := checked\<rparr>), m1)
         | (Inr u, m1) \<Rightarrow>
             (renderCards (excelData s) checked []
                (s\<lparr>selectedFields := checked, columnSectionShown := False,
                    searchSectionShown := True\<rparr>), m1))"
    by (simp add: saveColumnsBtn_onclick_def Let_def split: prod.splits sum.splits)
  show ?thesis
    unfolding empty
    by (auto simp: rest alert_def renderCards_keeps split: prod.splits sum.splits)
qed

theorem C5_confirm_selection_witness:
  "[''Reg''] \<noteq> [] \<and>
   fst (saveToStorage emptyMedium 1000 (excelData uploadedSession) [''Reg'']) = Inr () \<and>
   snd (saveColumnsBtn_onclick [''Reg''] 1000 (uploadedSession, emptyMedium)) =
     emptyMedium\<lparr>idb := Some scenarioData,
        ls := [CONFIG_KEY \<mapsto> JSON_stringify [''Reg''],
               EXPIRY_KEY \<mapsto> Number_toString 2592001000]\<rparr> \<and>
   selectedFields (fst (saveColumnsBtn_onclick [''Reg''] 1000 (uploadedSession, emptyMedium))) = [''Reg''] \<and>
   \<not> columnSectionShown (fst (saveColumnsBtn_onclick [''Reg''] 1000 (uploadedSession, emptyMedium))) \<and>
   searchSectionShown (fst (saveColumnsBtn_onclick [''Reg''] 1000 (uploadedSession, emptyMedium)))"
proof -
  have sv: "saveToStorage emptyMedium 1000 (excelData uploadedSession) [''Reg''] =
     (Inr (),
      emptyMedium\<lparr>idb := Some scenarioData,
        ls := [CONFIG_KEY \<mapsto> JSON_stringify [''Reg''],
               EXPIRY_KEY \<mapsto> Number_toString 2592001000]\<rparr>)"
    by (simp add: saveToStorage_result emptyMedium_def uploadedSession_def initialSession_def)
  from C5_confirm_selection [of 1000 uploadedSession emptyMedium "[''Reg'']"] sv
  show ?thesis
    by (simp add: renderCards_keeps)
qed

end
